theory Spec2Isabelle
  imports Complex_Main
begin

section \<open>Values of the host language\<close>

text \<open>
  The library is TypeScript. Its functions work on untyped JavaScript values: form
  snapshots are trees of plain objects and arrays, the trie of \<open>FieldsMap\<close> is a tree of
  \<open>Map\<close> objects. One datatype of values serves both.

  Numbers are IEEE doubles. Every finite double is a rational, and strict equality
  identifies the two zeros, so \<open>Fin r\<close> with a rational \<open>r\<close> carries all that equality,
  truthiness and \<open>isNaN\<close> can see of a finite number.
\<close>

datatype jsnum = NaN | PosInf | NegInf | Fin rat

text \<open>
  Modelled from the spec: the declarations of \<open>FieldName\<close> and \<open>FieldPath\<close> (types.ts) are
  not among the sources. The spec has a path segment as a string, a non-negative
  integer (an array index) or the sentinel token, and a path as a sequence of segments;
  the accessors of the code test \<open>typeof key !== 'symbol'\<close>, and the proxy records the
  property keys it is read with, so a segment is a string, a number or a symbol. Symbols
  are told apart by a number that stands for their identity.
  \<open>KUndefined\<close> is the value \<open>undefined\<close>, which \<open>path[path.length - 1]\<close> yields on an
  empty path and which then reaches the accessors in a key position.
\<close>

datatype FieldName = KStr string | KNum nat | KSym nat | KUndefined

type_synonym FieldPath = "FieldName list"

text \<open>
  \<open>Obj\<close> is a plain object (its own properties in insertion order), \<open>Arr\<close> an array (its
  elements, a hole stored as the \<open>undefined\<close> it reads as, and its own named properties),
  \<open>MapV\<close> a \<open>Map\<close> (its entries in insertion order, the keys pairwise distinct), \<open>Fn\<close> a
  callable. Objects are extensible and their own properties are writable data
  properties. Values are trees: no object occurs at two places. What a value inherits
  from its prototype chain is not part of the value; the host supplies it (see
  \<open>hostMember\<close> below).
\<close>

datatype jsval =
    Undefined
  | Null
  | Bool bool
  | Num jsnum
  | Str string
  | Sym nat
  | Fn nat
  | Obj "(FieldName \<times> jsval) list"
  | Arr "jsval list" "(FieldName \<times> jsval) list"
  | MapV "(FieldName \<times> jsval) list"

text \<open>
  \<open>TypeError\<close> and \<open>RangeError\<close> are raised by the host language, \<open>Error msg\<close> is
  \<open>new Error(msg)\<close> thrown by the library. \<open>OutsideModel\<close> marks an operation whose
  outcome in JavaScript these values cannot hold: a property written on a function or
  a map, a prototype replaced through \<open>__proto__\<close>, a conversion that rounds to a
  double or runs methods of an object. No theorem below is about such a run, and each
  theorem says so in its hypotheses, not through this result.
\<close>

datatype error = TypeError | RangeError | Error string | OutsideModel

definition truthy :: "jsval \<Rightarrow> bool" where
  "truthy v =
     (case v of
        Undefined \<Rightarrow> False
      | Null \<Rightarrow> False
      | Bool b \<Rightarrow> b
      | Num n \<Rightarrow> n \<noteq> NaN \<and> n \<noteq> Fin 0
      | Str s \<Rightarrow> s \<noteq> []
      | _ \<Rightarrow> True)"

subsection \<open>Property keys\<close>

definition digit_char :: "nat \<Rightarrow> char" where
  "digit_char d = ''0123456789'' ! d"

text \<open>
  \<open>String(n)\<close> for a number key \<open>n\<close>: its decimal digits. A number key of the model is
  a non-negative integer below \<open>10^21\<close>, as array indices and counts are; from there on
  JavaScript prints a number in exponent notation, which this function does not.
\<close>

fun String_of_nat :: "nat \<Rightarrow> string" where
  "String_of_nat n =
     (if n < 10 then [digit_char n] else String_of_nat (n div 10) @ [digit_char (n mod 10)])"

declare String_of_nat.simps [simp del]

text \<open>
  \<open>String(key)\<close>. The library calls it on keys that are not symbols; a symbol made by
  \<open>Symbol()\<close> prints as \<open>Symbol()\<close>.
\<close>

fun String_of :: "FieldName \<Rightarrow> string" where
  "String_of (KStr s) = s"
| "String_of (KNum n) = String_of_nat n"
| "String_of KUndefined = ''undefined''"
| "String_of (KSym i) = ''Symbol()''"

definition is_symbol :: "FieldName \<Rightarrow> bool" where
  "is_symbol key = (case key of KSym i \<Rightarrow> True | _ \<Rightarrow> False)"

text \<open>
  \<open>obj[key]\<close> converts the key to a property key first: a symbol stays, everything else
  becomes its string.
\<close>

definition propKey :: "FieldName \<Rightarrow> FieldName" where
  "propKey key = (if is_symbol key then key else KStr (String_of key))"

definition is_digit :: "char \<Rightarrow> bool" where
  "is_digit c = (c \<in> set ''0123456789'')"

definition digit_val :: "char \<Rightarrow> nat" where
  "digit_val c = of_char c - 48"

definition parse_nat :: "string \<Rightarrow> nat" where
  "parse_nat s = foldl (\<lambda>n c. 10 * n + digit_val c) 0 s"

text \<open>
  An array index is a property key that is the canonical decimal string of an integer
  below \<open>2^32 - 1\<close>.
\<close>

definition arrayIndex :: "FieldName \<Rightarrow> nat option" where
  "arrayIndex key =
     (case propKey key of
        KStr s \<Rightarrow>
          (if s \<noteq> [] \<and> list_all is_digit s \<and> (s = ''0'' \<or> hd s \<noteq> CHR ''0'')
                \<and> parse_nat s < 4294967295
           then Some (parse_nat s) else None)
      | _ \<Rightarrow> None)"

subsection \<open>Insertion-ordered entries\<close>

text \<open>
  The entries of a \<open>Map\<close> and the properties of a plain object: \<open>get\<close> reads
  \<open>undefined\<close> for an absent key, \<open>set\<close> overwrites in place or appends, \<open>delete\<close>
  removes the entry.
\<close>

definition Map_get :: "(FieldName \<times> jsval) list \<Rightarrow> FieldName \<Rightarrow> jsval" where
  "Map_get kvs key = (case map_of kvs key of None \<Rightarrow> Undefined | Some v \<Rightarrow> v)"

fun Map_set :: "(FieldName \<times> jsval) list \<Rightarrow> FieldName \<Rightarrow> jsval \<Rightarrow> (FieldName \<times> jsval) list" where
  "Map_set [] key v = [(key, v)]"
| "Map_set ((k, w) # kvs) key v =
     (if k = key then (key, v) # kvs else (k, w) # Map_set kvs key v)"

definition Map_delete :: "(FieldName \<times> jsval) list \<Rightarrow> FieldName \<Rightarrow> (FieldName \<times> jsval) list" where
  "Map_delete kvs key = filter (\<lambda>kv. fst kv \<noteq> key) kvs"

definition Map_keys :: "(FieldName \<times> jsval) list \<Rightarrow> FieldName list" where
  "Map_keys kvs = map fst kvs"

subsection \<open>The host\<close>

text \<open>
  Conversion of a string to a number. A string converts to \<open>NaN\<close> unless, with white
  space trimmed, it is empty or a numeric literal: a signed decimal literal,
  \<open>Infinity\<close>, or an unsigned binary, octal or hexadecimal integer. Characters are code
  units below 256.
\<close>

definition is_space :: "char \<Rightarrow> bool" where
  "is_space c = (c \<in> set [CHR 0x09, CHR 0x0A, CHR 0x0B, CHR 0x0C, CHR 0x0D, CHR 0x20, CHR 0xA0])"

definition trim :: "string \<Rightarrow> string" where
  "trim s = rev (dropWhile is_space (rev (dropWhile is_space s)))"

definition drop_sign :: "string \<Rightarrow> string" where
  "drop_sign s =
     (case s of [] \<Rightarrow> [] | c # cs \<Rightarrow> if c = CHR ''+'' \<or> c = CHR ''-'' then cs else s)"

definition is_exponent_part :: "string \<Rightarrow> bool" where
  "is_exponent_part s =
     (case s of
        [] \<Rightarrow> False
      | c # cs \<Rightarrow>
          (c = CHR ''e'' \<or> c = CHR ''E'') \<and> drop_sign cs \<noteq> [] \<and> list_all is_digit (drop_sign cs))"

definition is_unsigned_decimal :: "string \<Rightarrow> bool" where
  "is_unsigned_decimal s =
     (let ip = takeWhile is_digit s; r = dropWhile is_digit s in
      case r of
        [] \<Rightarrow> ip \<noteq> []
      | c # cs \<Rightarrow>
          if c = CHR ''.'' then
            (let fp = takeWhile is_digit cs; r2 = dropWhile is_digit cs in
             (ip \<noteq> [] \<or> fp \<noteq> []) \<and> (r2 = [] \<or> is_exponent_part r2))
          else ip \<noteq> [] \<and> is_exponent_part r)"

definition is_radix_literal :: "string \<Rightarrow> bool" where
  "is_radix_literal s =
     (case s of
        z # x # ds \<Rightarrow>
          z = CHR ''0'' \<and> ds \<noteq> [] \<and>
          ((x \<in> set ''bB'' \<and> list_all (\<lambda>c. c \<in> set ''01'') ds) \<or>
           (x \<in> set ''oO'' \<and> list_all (\<lambda>c. c \<in> set ''01234567'') ds) \<or>
           (x \<in> set ''xX'' \<and> list_all (\<lambda>c. c \<in> set ''0123456789abcdefABCDEF'') ds))
      | _ \<Rightarrow> False)"

definition StringToNumber_isNaN :: "string \<Rightarrow> bool" where
  "StringToNumber_isNaN s =
     (let t = trim s in
      \<not> (t = [] \<or> drop_sign t = ''Infinity'' \<or> is_unsigned_decimal (drop_sign t)
         \<or> is_radix_literal t))"

definition is_reference :: "jsval \<Rightarrow> bool" where
  "is_reference v =
     (case v of Fn f \<Rightarrow> True | Obj props \<Rightarrow> True | Arr xs props \<Rightarrow> True | MapV kvs \<Rightarrow> True
      | _ \<Rightarrow> False)"

text \<open>
  What the functions below take from the host and a tree of values does not record:
  \<open>sameRef\<close>, whether two occurrences of an object are one object; \<open>objIsNaN\<close>, the
  outcome of \<open>isNaN\<close> on an object, which runs the object's own conversion methods;
  \<open>hostMember\<close>, what a lookup finds under a property key that the value does not
  list itself: a member of its prototype chain (\<open>toString\<close>, \<open>__proto__\<close>, the methods
  of arrays and strings) or a built-in property of a function or a map.
\<close>

record host =
  sameRef :: "jsval \<Rightarrow> jsval \<Rightarrow> bool"
  objIsNaN :: "jsval \<Rightarrow> error + bool"
  hostMember :: "jsval \<Rightarrow> FieldName \<Rightarrow> jsval option"

text \<open>
  The host of the examples. Two occurrences are never one object, every object
  converts to \<open>NaN\<close> as a plain object does, and every value inherits four members of
  the base prototype and reads that prototype under \<open>__proto__\<close>.
\<close>

definition example_prototype :: "(FieldName \<times> jsval) list" where
  "example_prototype =
     [(KStr ''constructor'', Fn 1), (KStr ''toString'', Fn 2), (KStr ''valueOf'', Fn 3),
      (KStr ''hasOwnProperty'', Fn 4)]"

definition example_host :: host where
  "example_host =
     \<lparr> sameRef = (\<lambda>a b. False), objIsNaN = (\<lambda>v. Inr True),
       hostMember = (\<lambda>v key. if key = KStr ''__proto__'' then Some (Obj example_prototype)
                              else map_of example_prototype key) \<rparr>"

section \<open>Path utilities (helpers.ts)\<close>

type_synonym AccessorFn = "jsval \<Rightarrow> FieldName \<Rightarrow> error + jsval"
type_synonym SetterFn = "jsval \<Rightarrow> FieldName \<Rightarrow> jsval \<Rightarrow> error + jsval"

text \<open>
  The own properties of a value, as a lookup sees them: the properties of a plain
  object, the elements, \<open>length\<close> and named properties of an array, the characters and
  \<open>length\<close> of a string. The other values list none.
\<close>

definition ownProperty :: "jsval \<Rightarrow> FieldName \<Rightarrow> jsval option" where
  "ownProperty ob key =
     (case ob of
        Obj props \<Rightarrow> map_of props (propKey key)
      | Arr xs props \<Rightarrow>
          (case arrayIndex key of
             Some i \<Rightarrow> if i < length xs then Some (xs ! i) else None
           | None \<Rightarrow>
               if propKey key = KStr ''length'' then Some (Num (Fin (of_nat (length xs))))
               else map_of props (propKey key))
      | Str s \<Rightarrow>
          (case arrayIndex key of
             Some i \<Rightarrow> if i < length s then Some (Str [s ! i]) else None
           | None \<Rightarrow>
               if propKey key = KStr ''length'' then Some (Num (Fin (of_nat (length s))))
               else None)
      | _ \<Rightarrow> None)"

text \<open>
  \<open>objGetter = (obj, key) => obj[key]\<close>. Reading a property of \<open>undefined\<close> or \<open>null\<close>
  raises. Otherwise the lookup returns the own property, else what the host finds on
  the prototype chain, else \<open>undefined\<close>.
\<close>

definition objGetter :: "host \<Rightarrow> AccessorFn" where
  "objGetter h ob key =
     (if ob = Undefined \<or> ob = Null then Inl TypeError
      else
        (case ownProperty ob key of
           Some v \<Rightarrow> Inr v
         | None \<Rightarrow>
             (case hostMember h ob (propKey key) of
                Some m \<Rightarrow> Inr m
              | None \<Rightarrow> Inr Undefined)))"

text \<open>
  \<open>ob.__proto__ = v\<close> where \<open>__proto__\<close> is the inherited accessor: a primitive other
  than \<open>null\<close> is ignored, an object or \<open>null\<close> replaces the prototype.
\<close>

definition protoWrite :: "jsval \<Rightarrow> jsval \<Rightarrow> error + jsval" where
  "protoWrite ob v = (if is_reference v \<or> v = Null then Inl OutsideModel else Inr ob)"

definition inheritsProto :: "host \<Rightarrow> jsval \<Rightarrow> FieldName \<Rightarrow> bool" where
  "inheritsProto h ob key =
     (propKey key = KStr ''__proto__'' \<and> ownProperty ob key = None
      \<and> hostMember h ob (propKey key) \<noteq> None)"

text \<open>
  \<open>arr.length = v\<close>: \<open>v\<close> is converted to a number, which has to be an integer from 0
  to \<open>2^32 - 1\<close>; the array is cut or extended with holes. An empty string and a
  string of digits convert exactly; other numeric strings round to a double.
\<close>

definition resize :: "nat \<Rightarrow> jsval list \<Rightarrow> jsval list" where
  "resize n xs = take n xs @ replicate (n - length xs) Undefined"

definition lengthWrite ::
  "jsval list \<Rightarrow> (FieldName \<times> jsval) list \<Rightarrow> jsval \<Rightarrow> error + jsval" where
  "lengthWrite xs props v =
     (case v of
        Num n \<Rightarrow>
          (case n of
             Fin r \<Rightarrow>
               if 0 \<le> r \<and> r \<le> 4294967295 \<and> r = of_int \<lfloor>r\<rfloor>
               then Inr (Arr (resize (nat \<lfloor>r\<rfloor>) xs) props) else Inl RangeError
           | _ \<Rightarrow> Inl RangeError)
      | Undefined \<Rightarrow> Inl RangeError
      | Null \<Rightarrow> Inr (Arr [] props)
      | Bool b \<Rightarrow> Inr (Arr (resize (if b then 1 else 0) xs) props)
      | Str s \<Rightarrow>
          if StringToNumber_isNaN s then Inl RangeError
          else if trim s = [] then Inr (Arr [] props)
          else if list_all is_digit (trim s) then
            (if parse_nat (trim s) \<le> 4294967295
             then Inr (Arr (resize (parse_nat (trim s)) xs) props) else Inl RangeError)
          else Inl OutsideModel
      | Sym i \<Rightarrow> Inl TypeError
      | _ \<Rightarrow> Inl OutsideModel)"

text \<open>
  \<open>objSetter = (obj, key, value) => obj[key] = value\<close>. The state after the assignment
  is the result. The module is strict code, so assigning to a property of a primitive
  raises, as it does on \<open>undefined\<close> and \<open>null\<close>. On a plain object or an array the
  assignment writes the own property, creating it where there is none: the members of
  the built-in prototypes of objects and arrays are writable data properties and do not
  stand in the way, \<open>__proto__\<close> apart. An index at or beyond the length of an array
  extends the array, the gap reading \<open>undefined\<close>. A function or a map takes an own
  property too, for which these values have no place.
\<close>

definition objSetter :: "host \<Rightarrow> SetterFn" where
  "objSetter h ob key v =
     (case ob of
        Obj props \<Rightarrow>
          if inheritsProto h ob key then protoWrite ob v
          else Inr (Obj (Map_set props (propKey key) v))
      | Arr xs props \<Rightarrow>
          (case arrayIndex key of
             Some i \<Rightarrow>
               Inr (Arr (if i < length xs then xs[i := v]
                         else xs @ replicate (i - length xs) Undefined @ [v]) props)
           | None \<Rightarrow>
               if propKey key = KStr ''length'' then lengthWrite xs props v
               else if inheritsProto h ob key then protoWrite ob v
               else Inr (Arr xs (Map_set props (propKey key) v)))
      | MapV kvs \<Rightarrow> Inl OutsideModel
      | Fn f \<Rightarrow> Inl OutsideModel
      | _ \<Rightarrow> Inl TypeError)"

text \<open>
  \<open>getIn\<close> is \<open>path.reduce\<close> over the step below, from \<open>obj\<close>. A raise inside the
  accessor ends the call, so the accumulator of the model is either the error or the
  current value.
\<close>

definition getIn_step :: "AccessorFn \<Rightarrow> error + jsval \<Rightarrow> FieldName \<Rightarrow> error + jsval" where
  "getIn_step accessor result key =
     (case result of
        Inl e \<Rightarrow> Inl e
      | Inr r \<Rightarrow> if r = Undefined \<or> r = Null then Inr Undefined else accessor r key)"

definition getIn :: "AccessorFn \<Rightarrow> jsval \<Rightarrow> FieldPath \<Rightarrow> error + jsval" where
  "getIn accessor obj path = foldl (getIn_step accessor) (Inr obj) path"

text \<open>
  \<open>setIn\<close> mutates \<open>obj\<close> in place; the model returns the object after the call. The
  reduction of \<open>setIn\<close> walks \<open>path.slice(0, -1)\<close>: at each key it reads the child,
  creates and stores \<open>defaultValue()\<close> where the child is \<open>undefined\<close>, and goes on
  inside the child. The last object reached gets \<open>value\<close> under the last key. In
  JavaScript the child is mutated through a shared reference; in a tree of values the
  mutated child is put back under the key it was read from, which is the same state when
  accessor and setter address the same own slot. A child that the accessor finds on the
  prototype chain is shared with every other heir; a mutation of it is not a state of
  a tree of values, and the statements below are about walks that stay on own slots.
  The factory returns a fresh object at each call. A raise ends the call; the
  half-written object is not returned.

  \<open>path_last\<close> is \<open>path[path.length - 1]\<close>.
\<close>

definition path_last :: "FieldPath \<Rightarrow> FieldName" where
  "path_last path = (if path = [] then KUndefined else last path)"

fun setIn_reduce ::
  "AccessorFn \<Rightarrow> SetterFn \<Rightarrow> jsval \<Rightarrow> FieldName \<Rightarrow> jsval \<Rightarrow> jsval \<Rightarrow> FieldPath \<Rightarrow> error + jsval" where
  "setIn_reduce accessor setter defaultValue lastKey v result [] = setter result lastKey v"
| "setIn_reduce accessor setter defaultValue lastKey v result (key # keys) =
     (case accessor result key of
        Inl e \<Rightarrow> Inl e
      | Inr keyValue \<Rightarrow>
          if keyValue = Undefined then
            (case setter result key defaultValue of
               Inl e \<Rightarrow> Inl e
             | Inr result1 \<Rightarrow>
                 (case setIn_reduce accessor setter defaultValue lastKey v defaultValue keys of
                    Inl e \<Rightarrow> Inl e
                  | Inr child \<Rightarrow> setter result1 key child))
          else
            (case setIn_reduce accessor setter defaultValue lastKey v keyValue keys of
               Inl e \<Rightarrow> Inl e
             | Inr child \<Rightarrow> setter result key child))"

definition setIn ::
  "jsval \<Rightarrow> FieldPath \<Rightarrow> jsval \<Rightarrow> jsval \<Rightarrow> AccessorFn \<Rightarrow> SetterFn \<Rightarrow> error + jsval" where
  "setIn obj path v defaultValue accessor setter =
     (if length path = 1 then setter obj (path ! 0) v
      else setIn_reduce accessor setter defaultValue (path_last path) v obj (butlast path))"

section \<open>Type discriminators (helpers.ts)\<close>

text \<open>
  \<open>isPlainObject\<close> accepts an object whose prototype is \<open>null\<close> or carries the base
  object constructor: the values built as \<open>Obj\<close>. Arrays, maps and functions have other
  prototypes, primitives are refused by the first test.
\<close>

definition isPlainObject :: "jsval \<Rightarrow> bool" where
  "isPlainObject v = (case v of Obj props \<Rightarrow> True | _ \<Rightarrow> False)"

definition isArray :: "jsval \<Rightarrow> bool" where
  "isArray v = (case v of Arr xs props \<Rightarrow> True | _ \<Rightarrow> False)"

definition isFunction :: "jsval \<Rightarrow> bool" where
  "isFunction v = (case v of Fn f \<Rightarrow> True | _ \<Rightarrow> False)"

definition isMap :: "jsval \<Rightarrow> bool" where
  "isMap v = (case v of MapV kvs \<Rightarrow> True | _ \<Rightarrow> False)"

section \<open>The access-tracking proxy (helpers.ts, createProxy)\<close>

text \<open>
  A facade is the proxy object together with what its handler closes over: the marker
  symbol, the snapshot \<open>form\<close>, the path \<open>prevPath\<close> and \<open>parent = getIn(form, prevPath)\<close>,
  computed once when the proxy is created. \<open>target\<close> is the empty array or object the
  proxy wraps. The callback \<open>onAccess\<close> of \<open>useForm\<close> appends to the list of accessed
  paths; the traps take that list and return it updated. The reflecting traps (\<open>has\<close>,
  \<open>ownKeys\<close>, \<open>getPrototypeOf\<close>, \<open>getOwnPropertyDescriptor\<close>) only read \<open>parent\<close> and
  are left out.
\<close>

record facade =
  identifier_sym :: nat
  form :: jsval
  prevPath :: FieldPath
  parent :: jsval
  target :: jsval

definition createProxy :: "host \<Rightarrow> nat \<Rightarrow> jsval \<Rightarrow> FieldPath \<Rightarrow> error + facade" where
  "createProxy h ident frm path =
     (case getIn (objGetter h) frm path of
        Inl e \<Rightarrow> Inl e
      | Inr p \<Rightarrow>
          Inr \<lparr> identifier_sym = ident, form = frm, prevPath = path, parent = p,
                target = (if isArray p then Arr [] [] else Obj []) \<rparr>)"

text \<open>
  What a read through the proxy hands back: the marker pair \<open>[parent, prevPath]\<close>, a
  child facade, a function bound to the receiver, or the plain value.
\<close>

datatype getResult =
    Marker jsval FieldPath
  | Child facade
  | Bound jsval
  | Value jsval

text \<open>The \<open>get\<close> trap. \<open>prop\<close> is a property key: a string or a symbol.\<close>

definition get_trap ::
  "host \<Rightarrow> facade \<Rightarrow> FieldName \<Rightarrow> FieldPath list \<Rightarrow> error + (getResult \<times> FieldPath list)" where
  "get_trap h f prop accessed =
     (if prop = KSym (identifier_sym f) then Inr (Marker (parent f) (prevPath f), accessed)
      else
        (case objGetter h (parent f) prop of
           Inl e \<Rightarrow> Inl e
         | Inr v \<Rightarrow>
             if isArray v \<or> isPlainObject v then
               (case createProxy h (identifier_sym f) (form f) (prevPath f @ [prop]) of
                  Inl e \<Rightarrow> Inl e
                | Inr c \<Rightarrow> Inr (Child c, accessed))
             else if isFunction v then Inr (Bound v, accessed @ [prevPath f @ [prop]])
             else Inr (Value v, accessed @ [prevPath f @ [prop]])))"

text \<open>
  \<open>facade[key]\<close>: the engine turns the key into a property key and calls the trap.
\<close>

definition proxy_get ::
  "host \<Rightarrow> facade \<Rightarrow> FieldName \<Rightarrow> FieldPath list \<Rightarrow> error + (getResult \<times> FieldPath list)" where
  "proxy_get h f key accessed = get_trap h f (propKey key) accessed"

text \<open>
  The four mutating traps consist of one \<open>throw\<close>. Each is a function of the facade and
  the arguments of the attempted mutation; it returns the outcome of the call and the
  snapshot the facade stands for after the call.
\<close>

definition DirectMutationError :: error where
  "DirectMutationError =
     Error (''Direct modifications on form data are not allowed! Use '' @ [CHR 0x60]
            @ ''updateForm'' @ [CHR 0x60] @ ''!'')"

datatype mutation =
    Assign FieldName jsval
  | DefineProperty FieldName jsval
  | DeleteProperty FieldName
  | SetPrototypeOf jsval

definition set_trap :: "facade \<Rightarrow> FieldName \<Rightarrow> jsval \<Rightarrow> (error + bool) \<times> jsval" where
  "set_trap f prop v = (Inl DirectMutationError, form f)"

definition defineProperty_trap :: "facade \<Rightarrow> FieldName \<Rightarrow> jsval \<Rightarrow> (error + bool) \<times> jsval" where
  "defineProperty_trap f prop desc = (Inl DirectMutationError, form f)"

definition deleteProperty_trap :: "facade \<Rightarrow> FieldName \<Rightarrow> (error + bool) \<times> jsval" where
  "deleteProperty_trap f prop = (Inl DirectMutationError, form f)"

definition setPrototypeOf_trap :: "facade \<Rightarrow> jsval \<Rightarrow> (error + bool) \<times> jsval" where
  "setPrototypeOf_trap f proto = (Inl DirectMutationError, form f)"

fun proxy_mutate :: "facade \<Rightarrow> mutation \<Rightarrow> (error + bool) \<times> jsval" where
  "proxy_mutate f (Assign key v) = set_trap f (propKey key) v"
| "proxy_mutate f (DefineProperty key desc) = defineProperty_trap f (propKey key) desc"
| "proxy_mutate f (DeleteProperty key) = deleteProperty_trap f (propKey key)"
| "proxy_mutate f (SetPrototypeOf proto) = setPrototypeOf_trap f proto"

section \<open>The path-indexed trie (helpers.ts, FieldsMap)\<close>

text \<open>
  \<open>selfRef = Symbol()\<close> is private to the module: the key under which a node holds its
  own payload. No caller can build a path that contains it.
\<close>

definition selfRef :: FieldName where
  "selfRef = KSym 0"

text \<open>
  \<open>mapGetter\<close> and \<open>mapSetter\<close> turn a key that is not a symbol into its string and call
  \<open>map.get\<close> or \<open>map.set\<close>; on a value that has no such method the call raises.
\<close>

definition mapKey :: "FieldName \<Rightarrow> FieldName" where
  "mapKey key = (if \<not> is_symbol key then KStr (String_of key) else key)"

fun mapGetter :: AccessorFn where
  "mapGetter (MapV kvs) key = Inr (Map_get kvs (mapKey key))"
| "mapGetter v key = Inl TypeError"

fun mapSetter :: SetterFn where
  "mapSetter (MapV kvs) key v = Inr (MapV (Map_set kvs (mapKey key) v))"
| "mapSetter w key v = Inl TypeError"

text \<open>
  The class holds one private field, \<open>fields\<close>, created as \<open>new Map()\<close>. Each method is a
  function of the current \<open>fields\<close>; \<open>set\<close> and \<open>delete\<close> return the new one.
\<close>

definition FieldsMap_new :: jsval where
  "FieldsMap_new = MapV []"

definition FieldsMap_get :: "jsval \<Rightarrow> FieldPath \<Rightarrow> error + jsval" where
  "FieldsMap_get flds path = getIn mapGetter flds (path @ [selfRef])"

definition FieldsMap_set :: "jsval \<Rightarrow> FieldPath \<Rightarrow> jsval \<Rightarrow> error + jsval" where
  "FieldsMap_set flds path v = setIn flds (path @ [selfRef]) v (MapV []) mapGetter mapSetter"

definition FieldsMap_has :: "jsval \<Rightarrow> FieldPath \<Rightarrow> error + bool" where
  "FieldsMap_has flds path =
     (case FieldsMap_get flds path of Inl e \<Rightarrow> Inl e | Inr v \<Rightarrow> Inr (v \<noteq> Undefined))"

text \<open>
  \<open>keys\<close>: \<open>Array.from(map.keys())\<close> without the sentinel. An array has a \<open>keys\<close> method
  too (its indices); any other truthy value has none and the call raises.
\<close>

definition FieldsMap_keys :: "jsval \<Rightarrow> FieldPath \<Rightarrow> error + FieldName list" where
  "FieldsMap_keys flds path =
     (case getIn mapGetter flds path of
        Inl e \<Rightarrow> Inl e
      | Inr m \<Rightarrow>
          if \<not> truthy m then Inr []
          else
            (case m of
               MapV kvs \<Rightarrow> Inr (filter (\<lambda>key. key \<noteq> selfRef) (Map_keys kvs))
             | Arr xs props \<Rightarrow> Inr (filter (\<lambda>key. key \<noteq> selfRef) (map KNum [0..<length xs]))
             | _ \<Rightarrow> Inl TypeError))"

text \<open>
  \<open>delete\<close> fetches \<open>this.get(path.slice(0, -1))\<close>, the payload stored at the parent
  path, and calls \<open>reference.delete(path[path.length - 1])\<close> when that payload is a
  \<open>Map\<close>. The payload is mutated in place; in the model the mutated payload is written
  back to the slot it was read from (the slot exists, so \<open>FieldsMap_set\<close> creates
  nothing). The key goes to \<open>Map.delete\<close> as it is.
\<close>

definition FieldsMap_delete :: "jsval \<Rightarrow> FieldPath \<Rightarrow> error + jsval" where
  "FieldsMap_delete flds path =
     (case FieldsMap_get flds (butlast path) of
        Inl e \<Rightarrow> Inl e
      | Inr reference \<Rightarrow>
          (case reference of
             MapV kvs \<Rightarrow> FieldsMap_set flds (butlast path) (MapV (Map_delete kvs (path_last path)))
           | _ \<Rightarrow> Inr flds))"

text \<open>
  \<open>getAllNested\<close>. The inner function \<open>explore\<close> closes over \<open>maxDepth\<close> and over the
  array \<open>result\<close> it pushes to; the model passes both. \<open>explore_forEach\<close> is the
  \<open>forEach\<close> over \<open>Array.from(map.keys())\<close>, with the keys still to visit. \<open>maxDepth\<close> is
  an optional number, here an optional integer.
\<close>

definition depth_allows :: "int option \<Rightarrow> nat \<Rightarrow> bool" where
  "depth_allows maxDepth depth =
     (case maxDepth of None \<Rightarrow> True | Some md \<Rightarrow> int depth < md)"

function explore :: "int option \<Rightarrow> jsval \<Rightarrow> nat \<Rightarrow> jsval list \<Rightarrow> error + jsval list"
  and explore_forEach ::
    "int option \<Rightarrow> (FieldName \<times> jsval) list \<Rightarrow> nat \<Rightarrow> FieldName list \<Rightarrow> jsval list
     \<Rightarrow> error + jsval list" where
  "explore maxDepth m depth result =
     (case m of
        MapV kvs \<Rightarrow> explore_forEach maxDepth kvs depth (Map_keys kvs) result
      | Arr xs props \<Rightarrow> if xs = [] then Inr result else Inl TypeError
      | _ \<Rightarrow> Inl TypeError)"
| "explore_forEach maxDepth kvs depth [] result = Inr result"
| "explore_forEach maxDepth kvs depth (key # keys) result =
     (if \<not> truthy (Map_get kvs key) then explore_forEach maxDepth kvs depth keys result
      else if key = selfRef then
        explore_forEach maxDepth kvs depth keys (result @ [Map_get kvs key])
      else if depth_allows maxDepth depth then
        (case explore maxDepth (Map_get kvs key) (depth + 1) result of
           Inl e \<Rightarrow> Inl e
         | Inr result1 \<Rightarrow> explore_forEach maxDepth kvs depth keys result1)
      else explore_forEach maxDepth kvs depth keys result)"
  by pat_completeness auto
termination
proof -
  have smaller: "truthy (Map_get kvs key) \<Longrightarrow> size (Map_get kvs key) < size (MapV kvs)"
    for kvs key
  proof (induction kvs)
    case Nil
    then show ?case by (simp add: Map_get_def truthy_def)
  next
    case (Cons kv kvs)
    then show ?case
      by (cases kv) (auto simp: Map_get_def truthy_def split: if_splits option.splits)
  qed
  show ?thesis
    by (relation "measures
          [\<lambda>x. case x of Inl (md, m, d, r) \<Rightarrow> size m | Inr (md, kvs, d, ks, r) \<Rightarrow> size (MapV kvs),
           \<lambda>x. case x of Inl a \<Rightarrow> 1 | Inr b \<Rightarrow> 0,
           \<lambda>x. case x of Inl a \<Rightarrow> 0 | Inr (md, kvs, d, ks, r) \<Rightarrow> length ks]")
       (auto dest: smaller)
qed

declare explore.simps [simp del]

definition FieldsMap_getAllNested :: "jsval \<Rightarrow> FieldPath \<Rightarrow> int option \<Rightarrow> error + jsval list" where
  "FieldsMap_getAllNested flds path maxDepth =
     (case getIn mapGetter flds path of
        Inl e \<Rightarrow> Inl e
      | Inr m \<Rightarrow> if \<not> truthy m then Inr [] else explore maxDepth m 0 [])"

section \<open>The binding layer (hooks.ts, useForm)\<close>

text \<open>
  \<open>mkDefault(defaultValue, ...values)\<close>: the first value that is not \<open>undefined\<close>, else
  the default.
\<close>

definition mkDefault :: "'a \<Rightarrow> 'a option list \<Rightarrow> 'a" where
  "mkDefault defaultValue vals =
     (case find (\<lambda>v. v \<noteq> None) vals of Some (Some r) \<Rightarrow> r | _ \<Rightarrow> defaultValue)"

subsection \<open>Strict equality and the global isNaN\<close>

text \<open>
  \<open>a === b\<close>. Primitives compare by value, \<open>NaN\<close> equal to nothing. Objects compare by
  identity, which a tree of values does not record: the host says whether two
  occurrences are one object, and every statement below holds whatever it answers.
\<close>

definition strictEq :: "(jsval \<Rightarrow> jsval \<Rightarrow> bool) \<Rightarrow> jsval \<Rightarrow> jsval \<Rightarrow> bool" where
  "strictEq same a b =
     (case a of
        Undefined \<Rightarrow> b = Undefined
      | Null \<Rightarrow> b = Null
      | Bool x \<Rightarrow> b = Bool x
      | Num x \<Rightarrow> x \<noteq> NaN \<and> b = Num x
      | Str x \<Rightarrow> b = Str x
      | Sym x \<Rightarrow> b = Sym x
      | _ \<Rightarrow> is_reference b \<and> same a b)"

text \<open>
  \<open>isNaN(v)\<close> converts \<open>v\<close> to a number and tests for \<open>NaN\<close>. On an object the
  conversion runs the object's own \<open>valueOf\<close> and \<open>toString\<close>, which the data model does
  not carry: the host gives the outcome. A symbol does not convert; the call raises.
\<close>

fun js_isNaN :: "(jsval \<Rightarrow> error + bool) \<Rightarrow> jsval \<Rightarrow> error + bool" where
  "js_isNaN conv Undefined = Inr True"
| "js_isNaN conv Null = Inr False"
| "js_isNaN conv (Bool b) = Inr False"
| "js_isNaN conv (Num n) = Inr (n = NaN)"
| "js_isNaN conv (Str s) = Inr (StringToNumber_isNaN s)"
| "js_isNaN conv (Sym i) = Inl TypeError"
| "js_isNaN conv v = conv v"

subsection \<open>field\<close>

text \<open>
  The condition of the sanity check,
  \<open>fieldValue !== value && !(isNaN(fieldValue) && isNaN(value))\<close>, with the evaluation
  order of \<open>&&\<close>: a later operand is evaluated only when the earlier ones were true.
\<close>

definition misuse_condition :: "host \<Rightarrow> jsval \<Rightarrow> jsval \<Rightarrow> error + bool" where
  "misuse_condition h fieldValue v =
     (if strictEq (sameRef h) fieldValue v then Inr False
      else
        (case js_isNaN (objIsNaN h) fieldValue of
           Inl e \<Rightarrow> Inl e
         | Inr a \<Rightarrow>
             if \<not> a then Inr True
             else (case js_isNaN (objIsNaN h) v of Inl e \<Rightarrow> Inl e | Inr b \<Rightarrow> Inr (\<not> b))))"

definition IncorrectFormAccess :: error where
  "IncorrectFormAccess =
     Error ''Incorrect form access. Are you mixing variables from nested useForm?''"

definition MisuseError :: error where
  "MisuseError = Error ''Incorrect field access.''"

text \<open>
  \<open>fieldPath.join('.')\<close>: the segments as strings, \<open>undefined\<close> as the empty string;
  a symbol does not convert to a string and the call raises.
\<close>

fun join_path :: "FieldPath \<Rightarrow> error + string" where
  "join_path [] = Inr []"
| "join_path (key # keys) =
     (if is_symbol key then Inl TypeError
      else
        (case join_path keys of
           Inl e \<Rightarrow> Inl e
         | Inr r \<Rightarrow>
             Inr ((if key = KUndefined then [] else String_of key)
                  @ (if keys = [] then [] else CHR ''.'' # r))))"

text \<open>
  The argument of \<open>field\<close> is a plain value or a facade. A facade made by this
  \<open>useForm\<close> answers the marker lookup with \<open>[parent, prevPath]\<close>: the value becomes
  \<open>parent\<close> and \<open>prevPath\<close> is pushed. A plain value has no property under the marker,
  a symbol that never leaves \<open>useForm\<close>, and stays as it is. A facade of another
  \<open>useForm\<close> is not followed.
\<close>

datatype fieldArg = Plain jsval | Facade facade

record fieldHelpers =
  name :: string
  val :: jsval

text \<open>
  \<open>field\<close> up to the object it returns, of which \<open>name\<close> and \<open>value\<close> are kept (the
  handlers \<open>onChange\<close> and \<open>onBlur\<close> run later). \<open>proxyIdentifier\<close>, \<open>formState\<close> and
  \<open>accessedPaths\<close> are the variables of \<open>useForm\<close> the function closes over;
  \<open>fieldControlled\<close> and \<open>formControlled\<close> are the \<open>controlled\<close> options. The list of
  accessed paths after the call is returned with the helpers.
\<close>

definition field ::
  "host \<Rightarrow> nat \<Rightarrow> jsval \<Rightarrow> FieldPath list \<Rightarrow> bool option \<Rightarrow> bool option \<Rightarrow> fieldArg
   \<Rightarrow> error + (fieldHelpers \<times> FieldPath list)" where
  "field h proxyIdentifier formState accessedPaths fieldControlled formControlled arg =
     (case (case arg of
              Plain v \<Rightarrow> Inr (v, accessedPaths)
            | Facade f \<Rightarrow>
                if identifier_sym f = proxyIdentifier
                then Inr (parent f, accessedPaths @ [prevPath f])
                else Inl OutsideModel) of
        Inl e \<Rightarrow> Inl e
      | Inr (v, accessed1) \<Rightarrow>
          if accessed1 = [] then Inl IncorrectFormAccess
          else
            (let fieldPath = last accessed1 in
             case getIn (objGetter h) formState fieldPath of
               Inl e \<Rightarrow> Inl e
             | Inr fieldValue \<Rightarrow>
                 (case misuse_condition h fieldValue v of
                    Inl e \<Rightarrow> Inl e
                  | Inr wrong \<Rightarrow>
                      if wrong then Inl MisuseError
                      else
                        (let accessed2 =
                               (if \<not> mkDefault True [fieldControlled, formControlled]
                                then butlast accessed1 else accessed1) in
                         case join_path fieldPath of
                           Inl e \<Rightarrow> Inl e
                         | Inr n \<Rightarrow> Inr (\<lparr> name = n, val = fieldValue \<rparr>, accessed2)))))"

section \<open>Invariants and preconditions\<close>

text \<open>
  The shape of the private field \<open>fields\<close>: a \<open>Map\<close> that holds anything under the
  sentinel (the payload) and, under every other key, a key already in string or symbol
  form and a node of the same shape. A new trie has the shape; \<open>set\<close> and \<open>delete\<close>
  keep it.
\<close>

fun wfFields :: "jsval \<Rightarrow> bool" where
  "wfFields (MapV kvs) =
     (\<forall>kv \<in> set kvs. fst kv = selfRef \<or> (mapKey (fst kv) = fst kv \<and> wfFields (snd kv)))"
| "wfFields v = False"

text \<open>
  The slots on which \<open>obj[key] = v\<close> is an ordinary write that a later \<open>obj[key]\<close> reads
  back: on a plain object or an array, an own property (an element of the array among
  them) or a key that the prototype chain does not have; not the \<open>length\<close> of an array.
\<close>

definition own_slot :: "host \<Rightarrow> jsval \<Rightarrow> FieldName \<Rightarrow> bool" where
  "own_slot h ob key =
     ((isPlainObject ob \<or> (isArray ob \<and> propKey key \<noteq> KStr ''length''))
      \<and> (ownProperty ob key \<noteq> None \<or> hostMember h ob (propKey key) = None))"

text \<open>
  A walk of \<open>setIn\<close> that stays on own slots: the path is not empty, every value the
  walk meets (the object itself, each child it finds, and the factory's container
  \<open>dv\<close> where the child is \<open>undefined\<close>) is a plain object or an array, and each key
  addresses an own slot there.
\<close>

fun walkable :: "host \<Rightarrow> jsval \<Rightarrow> jsval \<Rightarrow> FieldPath \<Rightarrow> bool" where
  "walkable h dv ob [] = False"
| "walkable h dv ob [key] = own_slot h ob key"
| "walkable h dv ob (key # keys) =
     (own_slot h ob key \<and>
      (case objGetter h ob key of
         Inl e \<Rightarrow> False
       | Inr child \<Rightarrow>
           if child = Undefined then walkable h dv dv keys else walkable h dv child keys))"

text \<open>
  How far below a node \<open>getAllNested\<close> reaches: a node \<open>n\<close> levels below the start is
  visited when \<open>n = 0\<close>, when no bound is given, or when \<open>n\<close> does not exceed the bound.
\<close>

definition within_depth :: "int option \<Rightarrow> nat \<Rightarrow> bool" where
  "within_depth maxDepth n =
     (n = 0 \<or> (case maxDepth of None \<Rightarrow> True | Some md \<Rightarrow> int n \<le> md))"

text \<open>
  What \<open>getAllNested\<close> is to return, said with \<open>get\<close>-style lookups: the truthy payloads
  found from a node \<open>m\<close> that sits \<open>depth\<close> levels below the start, along every path of
  the caller that stays within the bound. \<open>visit\<close> is the share of one key of a node.
\<close>

definition payloads_below :: "int option \<Rightarrow> jsval \<Rightarrow> nat \<Rightarrow> jsval set" where
  "payloads_below maxDepth m depth =
     {v. truthy v \<and>
         (\<exists>q. selfRef \<notin> set q \<and> (q = [] \<or> within_depth maxDepth (depth + length q))
              \<and> getIn mapGetter m (q @ [selfRef]) = Inr v)}"

definition visit :: "int option \<Rightarrow> (FieldName \<times> jsval) list \<Rightarrow> nat \<Rightarrow> FieldName \<Rightarrow> jsval set" where
  "visit maxDepth kvs depth key =
     (if key = selfRef then {v. truthy v \<and> v = Map_get kvs selfRef}
      else if depth_allows maxDepth depth then payloads_below maxDepth (Map_get kvs key) (depth + 1)
      else {})"

section \<open>Properties\<close>

subsection \<open>Path utilities\<close>

lemma getIn_Nil [simp]: "getIn accessor obj [] = Inr obj"
  by (simp add: getIn_def)

lemma foldl_getIn_step_Inl [simp]: "foldl (getIn_step accessor) (Inl e) path = Inl e"
  by (induction path) (simp_all add: getIn_step_def)

lemma foldl_getIn_step_Undefined [simp]:
  "foldl (getIn_step accessor) (Inr Undefined) path = Inr Undefined"
  by (induction path) (simp_all add: getIn_step_def)

lemma getIn_Undefined [simp]: "getIn accessor Undefined path = Inr Undefined"
  by (simp add: getIn_def)

lemma getIn_Cons:
  "getIn accessor obj (key # path) =
     (if obj = Undefined \<or> obj = Null then Inr Undefined
      else (case accessor obj key of Inl e \<Rightarrow> Inl e | Inr r \<Rightarrow> getIn accessor r path))"
  by (auto simp: getIn_def getIn_step_def split: sum.splits)

lemma getIn_append:
  "getIn accessor obj (p @ q) =
     (case getIn accessor obj p of Inl e \<Rightarrow> Inl e | Inr r \<Rightarrow> getIn accessor r q)"
  by (simp add: getIn_def split: sum.splits)

lemma objGetter_total:
  "obj \<noteq> Undefined \<Longrightarrow> obj \<noteq> Null \<Longrightarrow> \<exists>r. objGetter h obj key = Inr r"
  by (simp add: objGetter_def split: option.splits)

lemma getIn_objGetter_total: "\<exists>r. getIn (objGetter h) obj path = Inr r"
proof (induction path arbitrary: obj)
  case Nil
  then show ?case by simp
next
  case (Cons key path)
  show ?case
  proof (cases "obj = Undefined \<or> obj = Null")
    case True
    then show ?thesis by (simp add: getIn_Cons)
  next
    case False
    then obtain r where "objGetter h obj key = Inr r" using objGetter_total by blast
    with False Cons show ?thesis by (simp add: getIn_Cons)
  qed
qed

lemma setIn_single: "setIn obj [key] v dv accessor setter = setter obj key v"
  by (simp add: setIn_def)

lemma setIn_reduce_setIn:
  "rest \<noteq> [] \<Longrightarrow>
   setIn_reduce accessor setter dv (last rest) v obj (butlast rest) = setIn obj rest v dv accessor setter"
  by (cases rest) (auto simp: setIn_def path_last_def)

lemma setIn_Cons:
  "rest \<noteq> [] \<Longrightarrow>
   setIn obj (key # rest) v dv accessor setter =
     (case accessor obj key of
        Inl e \<Rightarrow> Inl e
      | Inr keyValue \<Rightarrow>
          if keyValue = Undefined then
            (case setter obj key dv of
               Inl e \<Rightarrow> Inl e
             | Inr result1 \<Rightarrow>
                 (case setIn dv rest v dv accessor setter of
                    Inl e \<Rightarrow> Inl e
                  | Inr child \<Rightarrow> setter result1 key child))
          else
            (case setIn keyValue rest v dv accessor setter of
               Inl e \<Rightarrow> Inl e
             | Inr child \<Rightarrow> setter obj key child))"
proof -
  assume ne: "rest \<noteq> []"
  have "setIn obj (key # rest) v dv accessor setter
          = setIn_reduce accessor setter dv (last rest) v obj (key # butlast rest)"
    using ne by (simp add: setIn_def path_last_def)
  then show ?thesis
    by (simp add: setIn_reduce_setIn [OF ne] split: sum.splits)
qed

lemma Map_get_Map_set: "Map_get (Map_set kvs key v) k = (if k = key then v else Map_get kvs k)"
  by (induction kvs key v rule: Map_set.induct) (auto simp: Map_get_def)

lemma setIn_Cons_written:
  "rest \<noteq> [] \<Longrightarrow> setIn obj (key # rest) v dv accessor setter = Inr obj' \<Longrightarrow>
     \<exists>holder start child. setIn start rest v dv accessor setter = Inr child
        \<and> setter holder key child = Inr obj'"
  by (auto simp: setIn_Cons split: sum.splits if_splits)

lemma getIn_setIn:
  assumes law: "\<And>ob k w ob'. setter ob k w = Inr ob' \<Longrightarrow>
                  accessor ob' k = Inr w \<and> ob' \<noteq> Undefined \<and> ob' \<noteq> Null"
  shows "path \<noteq> [] \<Longrightarrow> setIn obj path v dv accessor setter = Inr obj'
           \<Longrightarrow> getIn accessor obj' path = Inr v"
proof (induction path arbitrary: obj obj')
  case Nil
  then show ?case by simp
next
  case (Cons key rest)
  show ?case
  proof (cases "rest = []")
    case True
    with Cons.prems have "setter obj key v = Inr obj'" by (simp add: setIn_single)
    from law [OF this] True show ?thesis by (simp add: getIn_Cons)
  next
    case False
    from setIn_Cons_written [OF False Cons.prems(2)] obtain holder start child where
      child: "setIn start rest v dv accessor setter = Inr child"
      and wb: "setter holder key child = Inr obj'"
      by blast
    from Cons.IH [OF False child] have "getIn accessor child rest = Inr v" .
    with law [OF wb] show ?thesis by (simp add: getIn_Cons)
  qed
qed

lemma mapSetter_law:
  "mapSetter ob k w = Inr ob' \<Longrightarrow> mapGetter ob' k = Inr w \<and> ob' \<noteq> Undefined \<and> ob' \<noteq> Null"
  by (cases ob) (auto simp: Map_get_Map_set)

lemma map_of_Map_set:
  "map_of (Map_set kvs key v) k = (if k = key then Some v else map_of kvs k)"
  by (induction kvs key v rule: Map_set.induct) auto

lemma own_slot_write:
  assumes "own_slot h ob key"
  shows "\<exists>ob'. objSetter h ob key w = Inr ob' \<and> objGetter h ob' key = Inr w
              \<and> own_slot h ob' key \<and> ob' \<noteq> Undefined \<and> ob' \<noteq> Null"
proof (cases ob)
  case (Obj props)
  with assms have "\<not> inheritsProto h ob key"
    by (auto simp: own_slot_def inheritsProto_def)
  with Obj show ?thesis
    by (simp add: objSetter_def objGetter_def ownProperty_def own_slot_def map_of_Map_set
        isPlainObject_def)
next
  case (Arr xs props)
  from assms Arr have named: "propKey key \<noteq> KStr ''length''"
    by (simp add: own_slot_def isPlainObject_def isArray_def)
  show ?thesis
  proof (cases "arrayIndex key")
    case (Some i)
    with Arr named show ?thesis
      by (simp add: objSetter_def objGetter_def ownProperty_def own_slot_def nth_append
          isArray_def)
  next
    case None
    with assms Arr have "\<not> inheritsProto h ob key"
      by (auto simp: own_slot_def inheritsProto_def)
    with Arr None named show ?thesis
      by (simp add: objSetter_def objGetter_def ownProperty_def own_slot_def map_of_Map_set
          isArray_def)
  qed
qed (use assms in \<open>simp_all add: own_slot_def isPlainObject_def isArray_def\<close>)

lemma own_slot_read:
  "own_slot h ob key \<Longrightarrow> \<exists>child. objGetter h ob key = Inr child"
  by (cases ob) (simp_all add: own_slot_def objGetter_total isPlainObject_def isArray_def)

lemma walkable_setIn:
  "walkable h dv ob path \<Longrightarrow>
     \<exists>ob'. setIn ob path v dv (objGetter h) (objSetter h) = Inr ob'
          \<and> getIn (objGetter h) ob' path = Inr v"
proof (induction h dv ob path rule: walkable.induct)
  case (1 h dv ob)
  then show ?case by simp
next
  case (2 h dv ob key)
  then have "own_slot h ob key" by simp
  from own_slot_write [OF this, of v] obtain ob' where
    "objSetter h ob key v = Inr ob'" "objGetter h ob' key = Inr v"
    "ob' \<noteq> Undefined" "ob' \<noteq> Null" by blast
  then show ?case
    by (simp add: setIn_single getIn_Cons)
next
  case (3 h dv ob key k2 keys)
  let ?rest = "k2 # keys"
  from "3.prems" have slot: "own_slot h ob key" by simp
  from own_slot_read [OF slot] obtain child where child: "objGetter h ob key = Inr child" by blast
  show ?case
  proof (cases "child = Undefined")
    case True
    with "3.prems" child have "walkable h dv dv ?rest" by simp
    from "3.IH"(1) [OF child True this] obtain ch where
      ch: "setIn dv ?rest v dv (objGetter h) (objSetter h) = Inr ch"
      and got: "getIn (objGetter h) ch ?rest = Inr v" by blast
    from own_slot_write [OF slot, of dv] obtain r1 where
      r1: "objSetter h ob key dv = Inr r1" and slot1: "own_slot h r1 key" by blast
    from own_slot_write [OF slot1, of ch] obtain ob' where
      wb: "objSetter h r1 key ch = Inr ob'" and rd: "objGetter h ob' key = Inr ch"
      and nn: "ob' \<noteq> Undefined" "ob' \<noteq> Null" by blast
    have "setIn ob (key # ?rest) v dv (objGetter h) (objSetter h) = Inr ob'"
      using child True r1 ch wb by (simp add: setIn_Cons [of "k2 # keys"])
    moreover have "getIn (objGetter h) ob' (key # ?rest) = Inr v"
      using rd nn got by (simp add: getIn_Cons)
    ultimately show ?thesis by blast
  next
    case False
    with "3.prems" child have "walkable h dv child ?rest" by simp
    from "3.IH"(2) [OF child False this] obtain ch where
      ch: "setIn child ?rest v dv (objGetter h) (objSetter h) = Inr ch"
      and got: "getIn (objGetter h) ch ?rest = Inr v" by blast
    from own_slot_write [OF slot, of ch] obtain ob' where
      wb: "objSetter h ob key ch = Inr ob'" and rd: "objGetter h ob' key = Inr ch"
      and nn: "ob' \<noteq> Undefined" "ob' \<noteq> Null" by blast
    have "setIn ob (key # ?rest) v dv (objGetter h) (objSetter h) = Inr ob'"
      using child False ch wb by (simp add: setIn_Cons [of "k2 # keys"])
    moreover have "getIn (objGetter h) ob' (key # ?rest) = Inr v"
      using rd nn got by (simp add: getIn_Cons)
    ultimately show ?thesis by blast
  qed
qed

lemma hostMember_example:
  "hostMember example_host ob (KStr s) =
     (if s = ''__proto__'' then Some (Obj example_prototype) else map_of example_prototype (KStr s))"
  by (simp add: example_host_def)

text \<open>
  Claim C4, as the code has it. When the walk of \<open>setIn\<close> stays on own slots (the path
  is not empty; every value the walk meets, that is the object, each child it finds
  and the factory's container where a child is \<open>undefined\<close>, is a plain object or an
  array; each key addresses there an own property, an array index, or a name that the
  prototype chain does not have), \<open>setIn\<close> with the default accessors completes, the
  missing containers created by the factory, and \<open>getIn\<close> on the object it left
  returns exactly the value.
\<close>

theorem path_round_trip:
  assumes "walkable h dv obj path"
  shows "\<exists>obj'. setIn obj path v dv (objGetter h) (objSetter h) = Inr obj'
               \<and> getIn (objGetter h) obj' path = Inr v"
  using assms by (rule walkable_setIn)

text \<open>
  Claim C4 as stated fails. On the empty path \<open>setIn\<close> writes the value under the key
  \<open>"undefined"\<close> and \<open>getIn\<close> returns the object, not the value. A \<open>null\<close> met on the
  way is not replaced by the factory: the call raises. And an assignment of a string
  under the inherited \<open>__proto__\<close> is ignored: \<open>setIn\<close> completes, the object is as it
  was, and \<open>getIn\<close> reads the prototype.
\<close>

theorem path_round_trip_empty_path:
  "setIn (Obj []) [] (Num (Fin 1)) (Obj []) (objGetter example_host) (objSetter example_host)
     = Inr (Obj [(KStr ''undefined'', Num (Fin 1))])
   \<and> getIn (objGetter example_host) (Obj [(KStr ''undefined'', Num (Fin 1))]) [] \<noteq> Inr (Num (Fin 1))
   \<and> setIn (Obj [(KStr ''a'', Null)]) [KStr ''a'', KStr ''b''] (Num (Fin 1)) (Obj [])
        (objGetter example_host) (objSetter example_host)
     = Inl TypeError
   \<and> setIn (Obj []) [KStr ''__proto__''] (Str ''v'') (Obj [])
        (objGetter example_host) (objSetter example_host)
     = Inr (Obj [])
   \<and> getIn (objGetter example_host) (Obj []) [KStr ''__proto__''] = Inr (Obj example_prototype)"
  by (simp add: setIn_def path_last_def propKey_def is_symbol_def objGetter_def objSetter_def
      ownProperty_def inheritsProto_def protoWrite_def is_reference_def hostMember_example
      example_prototype_def getIn_Cons)

text \<open>
  \<open>setIn({}, ["a","b","c"], 1, () => ({}))\<close> leaves \<open>{a: {b: {c: 1}}}\<close>, from which
  \<open>getIn\<close> reads \<open>1\<close>.
\<close>

theorem path_round_trip_witness:
  "walkable example_host (Obj []) (Obj []) [KStr ''a'', KStr ''b'', KStr ''c'']
   \<and> setIn (Obj []) [KStr ''a'', KStr ''b'', KStr ''c''] (Num (Fin 1)) (Obj [])
        (objGetter example_host) (objSetter example_host)
       = Inr (Obj [(KStr ''a'', Obj [(KStr ''b'', Obj [(KStr ''c'', Num (Fin 1))])])])
   \<and> getIn (objGetter example_host)
        (Obj [(KStr ''a'', Obj [(KStr ''b'', Obj [(KStr ''c'', Num (Fin 1))])])])
        [KStr ''a'', KStr ''b'', KStr ''c''] = Inr (Num (Fin 1))"
proof -
  let ?p = "[KStr ''a'', KStr ''b'', KStr ''c'']"
  let ?r = "Obj [(KStr ''a'', Obj [(KStr ''b'', Obj [(KStr ''c'', Num (Fin 1))])])]"
  have w: "walkable example_host (Obj []) (Obj []) ?p"
    by (simp add: own_slot_def ownProperty_def objGetter_def propKey_def is_symbol_def
        hostMember_example example_prototype_def isPlainObject_def)
  have s: "setIn (Obj []) ?p (Num (Fin 1)) (Obj []) (objGetter example_host) (objSetter example_host)
             = Inr ?r"
    by (simp add: setIn_def path_last_def propKey_def is_symbol_def objGetter_def objSetter_def
        ownProperty_def inheritsProto_def hostMember_example example_prototype_def)
  from path_round_trip [OF w, of "Num (Fin 1)"] s
  have "getIn (objGetter example_host) ?r ?p = Inr (Num (Fin 1))" by simp
  with w s show ?thesis by simp
qed

subsection \<open>The facade\<close>

lemma objGetter_Obj:
  "objGetter h (Obj props) key =
     Inr (case map_of props (propKey key) of
            Some v \<Rightarrow> v
          | None \<Rightarrow> (case hostMember h (Obj props) (propKey key) of Some m \<Rightarrow> m | None \<Rightarrow> Undefined))"
  by (simp add: objGetter_def ownProperty_def split: option.splits)

lemma propKey_KStr [simp]: "propKey (KStr s) = KStr s"
  by (simp add: propKey_def is_symbol_def)

lemma createProxy_parent:
  "createProxy h ident frm path = Inr f \<Longrightarrow>
     getIn (objGetter h) frm path = Inr (parent f) \<and> form f = frm \<and> prevPath f = path
     \<and> identifier_sym f = ident"
  by (auto simp: createProxy_def split: sum.splits)

text \<open>
  Claim C2, as the code has it. For every snapshot and every path prefix, the facade for
  that prefix exists, and reading the marker key on it returns the pair of the value
  located at the prefix inside the snapshot, \<open>getIn(form, prevPath)\<close>, and the prefix;
  no access is recorded. The first element is the subtree at the prefix, not the root
  snapshot.
\<close>

theorem marker_lookup:
  "\<exists>f p. createProxy h ident frm path = Inr f \<and> getIn (objGetter h) frm path = Inr p
         \<and> proxy_get h f (KSym ident) accessed = Inr (Marker p path, accessed)"
proof -
  obtain p where p: "getIn (objGetter h) frm path = Inr p"
    using getIn_objGetter_total by blast
  then show ?thesis
    by (simp add: createProxy_def proxy_get_def get_trap_def propKey_def is_symbol_def)
qed

text \<open>
  Claim C2 as stated fails: on the snapshot \<open>{user: {name: "x"}}\<close> the facade for
  \<open>["user"]\<close> answers the marker lookup with \<open>{name: "x"}\<close> as first element, which is
  not the snapshot handed to \<open>createProxy\<close>.
\<close>

theorem marker_lookup_not_root:
  "createProxy example_host 7 (Obj [(KStr ''user'', Obj [(KStr ''name'', Str ''x'')])]) [KStr ''user'']
     = Inr \<lparr> identifier_sym = 7, form = Obj [(KStr ''user'', Obj [(KStr ''name'', Str ''x'')])],
             prevPath = [KStr ''user''], parent = Obj [(KStr ''name'', Str ''x'')],
             target = Obj [] \<rparr>
   \<and> proxy_get example_host \<lparr> identifier_sym = 7, form = Obj [(KStr ''user'', Obj [(KStr ''name'', Str ''x'')])],
             prevPath = [KStr ''user''], parent = Obj [(KStr ''name'', Str ''x'')],
             target = Obj [] \<rparr> (KSym 7) []
     = Inr (Marker (Obj [(KStr ''name'', Str ''x'')]) [KStr ''user''], [])
   \<and> Obj [(KStr ''name'', Str ''x'')] \<noteq> Obj [(KStr ''user'', Obj [(KStr ''name'', Str ''x'')])]"
  by (simp add: createProxy_def proxy_get_def get_trap_def propKey_def is_symbol_def
      getIn_Cons objGetter_Obj isArray_def)

text \<open>
  Claim C5. Let \<open>f\<close> be the facade of a snapshot at \<open>path\<close> and \<open>prop\<close> a property
  other than the marker whose value in the snapshot is \<open>v\<close>. When \<open>v\<close> is an array or a
  plain object, the read returns the facade for \<open>path + [prop]\<close> (standing for \<open>v\<close>) and
  the list of accessed paths is unchanged. Otherwise the read appends exactly
  \<open>path + [prop]\<close> to the list and returns \<open>v\<close> (bound, when \<open>v\<close> is callable).
\<close>

theorem read_tracking:
  assumes f: "createProxy h ident frm path = Inr f"
    and nm: "prop \<noteq> KSym ident"
    and v: "objGetter h (parent f) prop = Inr v"
  shows "(isArray v \<or> isPlainObject v \<longrightarrow>
            (\<exists>c. get_trap h f prop accessed = Inr (Child c, accessed)
                 \<and> createProxy h ident frm (path @ [prop]) = Inr c \<and> parent c = v))
       \<and> (\<not> (isArray v \<or> isPlainObject v) \<longrightarrow>
            get_trap h f prop accessed =
              Inr (if isFunction v then Bound v else Value v, accessed @ [path @ [prop]]))"
proof -
  note cp = createProxy_parent [OF f]
  from v have nn: "parent f \<noteq> Undefined" "parent f \<noteq> Null"
    by (auto simp: objGetter_def)
  have deeper: "getIn (objGetter h) frm (path @ [prop]) = Inr v"
    using cp nn v by (simp add: getIn_append getIn_Cons)
  then obtain c where c: "createProxy h ident frm (path @ [prop]) = Inr c" and pc: "parent c = v"
    by (auto simp: createProxy_def)
  show ?thesis
    using cp nm v c pc by (auto simp: get_trap_def)
qed

text \<open>
  On the snapshot \<open>{user: {name: "x", age: 3}}\<close>: reading \<open>facade.user\<close> returns a child
  facade and records nothing; reading \<open>name\<close> on that child returns \<open>"x"\<close> and the
  record is exactly \<open>[["user", "name"]]\<close>.
\<close>

theorem read_tracking_witness:
  "createProxy example_host 7 (Obj [(KStr ''user'', Obj [(KStr ''name'', Str ''x''), (KStr ''age'', Num (Fin 3))])]) []
     = Inr \<lparr> identifier_sym = 7,
             form = Obj [(KStr ''user'', Obj [(KStr ''name'', Str ''x''), (KStr ''age'', Num (Fin 3))])],
             prevPath = [],
             parent = Obj [(KStr ''user'', Obj [(KStr ''name'', Str ''x''), (KStr ''age'', Num (Fin 3))])],
             target = Obj [] \<rparr>
   \<and> (\<exists>c. proxy_get example_host \<lparr> identifier_sym = 7,
             form = Obj [(KStr ''user'', Obj [(KStr ''name'', Str ''x''), (KStr ''age'', Num (Fin 3))])],
             prevPath = [],
             parent = Obj [(KStr ''user'', Obj [(KStr ''name'', Str ''x''), (KStr ''age'', Num (Fin 3))])],
             target = Obj [] \<rparr> (KStr ''user'') [] = Inr (Child c, [])
          \<and> createProxy example_host 7 (Obj [(KStr ''user'', Obj [(KStr ''name'', Str ''x''), (KStr ''age'', Num (Fin 3))])])
               [KStr ''user''] = Inr c
          \<and> proxy_get example_host c (KStr ''name'') [] = Inr (Value (Str ''x''), [[KStr ''user'', KStr ''name'']]))"
proof -
  let ?snap = "Obj [(KStr ''user'', Obj [(KStr ''name'', Str ''x''), (KStr ''age'', Num (Fin 3))])]"
  let ?user = "Obj [(KStr ''name'', Str ''x''), (KStr ''age'', Num (Fin 3))]"
  let ?root = "\<lparr> identifier_sym = 7, form = ?snap, prevPath = [], parent = ?snap, target = Obj [] \<rparr>"
  have root: "createProxy example_host 7 ?snap [] = Inr ?root"
    by (simp add: createProxy_def isArray_def)
  have u: "objGetter example_host (parent ?root) (KStr ''user'') = Inr ?user"
    by (simp add: objGetter_Obj)
  from read_tracking [OF root _ u, of "[]"]
  obtain c where c: "get_trap example_host ?root (KStr ''user'') [] = Inr (Child c, [])"
      "createProxy example_host 7 ?snap [KStr ''user''] = Inr c" "parent c = ?user"
    by (auto simp: isPlainObject_def)
  have n: "objGetter example_host (parent c) (KStr ''name'') = Inr (Str ''x'')"
    using c(3) by (simp add: objGetter_Obj)
  from read_tracking [OF c(2) _ n, of "[]"]
  have "get_trap example_host c (KStr ''name'') [] = Inr (Value (Str ''x''), [[KStr ''user'', KStr ''name'']])"
    by (simp add: isArray_def isPlainObject_def isFunction_def)
  with root c show ?thesis
    by (auto simp: proxy_get_def)
qed

text \<open>
  Claim C6. On every facade, each kind of mutation (assignment, property definition,
  deletion, prototype change) ends in the error thrown by the trap, and the snapshot
  the facade stands for is the one it stood for before. The same holds on a child
  facade handed out by a read, whose snapshot is the snapshot of its parent facade.
\<close>

theorem mutation_rejected:
  "proxy_mutate f m = (Inl DirectMutationError, form f) \<and>
   (get_trap h f prop accessed = Inr (Child c, accessed') \<longrightarrow>
      proxy_mutate c m = (Inl DirectMutationError, form f))"
proof -
  have all: "proxy_mutate g m = (Inl DirectMutationError, form g)" for g
    by (cases m)
       (simp_all add: set_trap_def defineProperty_trap_def deleteProperty_trap_def
          setPrototypeOf_trap_def)
  have "form c = form f" if "get_trap h f prop accessed = Inr (Child c, accessed')"
    using that
    by (auto simp: get_trap_def createProxy_def split: if_splits sum.splits)
  with all show ?thesis by simp
qed

text \<open>
  The child facade for \<open>user\<close> of the snapshot \<open>{user: {name: "x"}}\<close> rejects the
  assignment \<open>facade.user.name = "y"\<close> and the snapshot is as before.
\<close>

theorem mutation_rejected_witness:
  "get_trap example_host \<lparr> identifier_sym = 7, form = Obj [(KStr ''user'', Obj [(KStr ''name'', Str ''x'')])],
              prevPath = [], parent = Obj [(KStr ''user'', Obj [(KStr ''name'', Str ''x'')])],
              target = Obj [] \<rparr> (KStr ''user'') []
     = Inr (Child \<lparr> identifier_sym = 7, form = Obj [(KStr ''user'', Obj [(KStr ''name'', Str ''x'')])],
              prevPath = [KStr ''user''], parent = Obj [(KStr ''name'', Str ''x'')],
              target = Obj [] \<rparr>, [])
   \<and> proxy_mutate \<lparr> identifier_sym = 7, form = Obj [(KStr ''user'', Obj [(KStr ''name'', Str ''x'')])],
              prevPath = [KStr ''user''], parent = Obj [(KStr ''name'', Str ''x'')],
              target = Obj [] \<rparr> (Assign (KStr ''name'') (Str ''y''))
     = (Inl DirectMutationError, Obj [(KStr ''user'', Obj [(KStr ''name'', Str ''x'')])])"
proof -
  let ?snap = "Obj [(KStr ''user'', Obj [(KStr ''name'', Str ''x'')])]"
  let ?root = "\<lparr> identifier_sym = 7, form = ?snap, prevPath = [], parent = ?snap, target = Obj [] \<rparr>"
  let ?child = "\<lparr> identifier_sym = 7, form = ?snap, prevPath = [KStr ''user''],
                  parent = Obj [(KStr ''name'', Str ''x'')], target = Obj [] \<rparr>"
  have g: "get_trap example_host ?root (KStr ''user'') [] = Inr (Child ?child, [])"
    by (simp add: get_trap_def createProxy_def objGetter_Obj
        isArray_def isPlainObject_def getIn_Cons)
  with mutation_rejected [of ?root "Assign (KStr ''name'') (Str ''y'')" example_host "KStr ''user''" "[]" ?child "[]"]
  show ?thesis by simp
qed

subsection \<open>The trie\<close>

lemma mapKey_idem [simp]: "mapKey (mapKey key) = mapKey key"
  by (simp add: mapKey_def is_symbol_def)

lemma mapGetter_mapKey [simp]: "mapGetter m (mapKey key) = mapGetter m key"
  by (cases m) simp_all

lemma mapSetter_mapKey [simp]: "mapSetter m (mapKey key) v = mapSetter m key v"
  by (cases m) simp_all

lemma getIn_map_mapKey: "getIn mapGetter m (map mapKey path) = getIn mapGetter m path"
  by (induction path arbitrary: m) (simp_all add: getIn_Cons split: sum.splits)

lemma setIn_map_mapKey:
  "setIn m (map mapKey path) v dv mapGetter mapSetter = setIn m path v dv mapGetter mapSetter"
proof (induction path arbitrary: m)
  case Nil
  then show ?case by simp
next
  case (Cons key rest)
  show ?case
  proof (cases "rest = []")
    case True
    then show ?thesis by (simp add: setIn_single)
  next
    case False
    then show ?thesis
      by (simp add: setIn_Cons Cons.IH split: sum.splits)
  qed
qed

lemma mapKey_selfRef [simp]: "mapKey selfRef = selfRef"
  by (simp add: mapKey_def selfRef_def is_symbol_def)

lemma mapKey_eq_selfRef [simp]: "mapKey key = selfRef \<longleftrightarrow> key = selfRef"
  by (cases key) (simp_all add: mapKey_def selfRef_def is_symbol_def)

text \<open>
  Claim C7. For every trie, a path with the number \<open>n\<close> at some position and the same
  path with the string \<open>String(n)\<close> at that position are the same address for \<open>get\<close> and
  for \<open>set\<close>; after \<open>set([0], v)\<close> on a new trie \<open>get(["0"])\<close> is \<open>v\<close>. A number or a
  string becomes its string; the sentinel stays the symbol it is, and no number or
  string becomes the sentinel.
\<close>

theorem segment_normalisation:
  "FieldsMap_get t (p @ KNum n # q) = FieldsMap_get t (p @ KStr (String_of_nat n) # q)
   \<and> FieldsMap_set t (p @ KNum n # q) v = FieldsMap_set t (p @ KStr (String_of_nat n) # q) v
   \<and> (\<exists>t'. FieldsMap_set FieldsMap_new [KNum 0] v = Inr t' \<and> FieldsMap_get t' [KStr ''0''] = Inr v)
   \<and> mapKey selfRef = selfRef \<and> mapKey (KNum n) \<noteq> selfRef \<and> mapKey (KStr s) \<noteq> selfRef"
proof -
  have same: "map mapKey ((p @ KNum n # q) @ [selfRef])
                = map mapKey ((p @ KStr (String_of_nat n) # q) @ [selfRef])"
    by (simp add: mapKey_def is_symbol_def)
  have g: "FieldsMap_get t (p @ KNum n # q) = FieldsMap_get t (p @ KStr (String_of_nat n) # q)"
    unfolding FieldsMap_get_def
    by (metis same getIn_map_mapKey)
  have s: "FieldsMap_set t (p @ KNum n # q) v = FieldsMap_set t (p @ KStr (String_of_nat n) # q) v"
    unfolding FieldsMap_set_def
    by (metis same setIn_map_mapKey)
  have zero: "String_of_nat 0 = ''0''"
    by (simp add: String_of_nat.simps digit_char_def)
  have e: "\<exists>t'. FieldsMap_set FieldsMap_new [KNum 0] v = Inr t' \<and> FieldsMap_get t' [KStr ''0''] = Inr v"
    by (simp add: FieldsMap_set_def FieldsMap_new_def FieldsMap_get_def setIn_Cons setIn_single
        getIn_Cons Map_get_def mapKey_def is_symbol_def selfRef_def zero)
  show ?thesis using g s e by (simp add: mapKey_def is_symbol_def selfRef_def)
qed

lemma FieldsMap_delete_noop:
  "FieldsMap_get t (butlast p) = Inr r \<Longrightarrow> \<not> isMap r \<Longrightarrow> FieldsMap_delete t p = Inr t"
  by (cases r) (simp_all add: FieldsMap_delete_def isMap_def)

text \<open>
  Claim C1 at a concrete trie. After \<open>set(["a","b"], 1)\<close> and \<open>set(["a"], 2)\<close>, the call
  \<open>delete(["a","b"])\<close> returns the trie it was given: the payload at \<open>["a"]\<close> is \<open>2\<close>, not
  a \<open>Map\<close>, so nothing is deleted, and \<open>get(["a","b"])\<close> still is \<open>1\<close>.
\<close>

theorem delete_leaves_entry:
  "FieldsMap_set FieldsMap_new [KStr ''a'', KStr ''b''] (Num (Fin 1))
     = Inr (MapV [(KStr ''a'', MapV [(KStr ''b'', MapV [(selfRef, Num (Fin 1))])])])
   \<and> FieldsMap_set (MapV [(KStr ''a'', MapV [(KStr ''b'', MapV [(selfRef, Num (Fin 1))])])])
        [KStr ''a''] (Num (Fin 2))
     = Inr (MapV [(KStr ''a'', MapV [(KStr ''b'', MapV [(selfRef, Num (Fin 1))]),
                                      (selfRef, Num (Fin 2))])])
   \<and> FieldsMap_delete
        (MapV [(KStr ''a'', MapV [(KStr ''b'', MapV [(selfRef, Num (Fin 1))]),
                                   (selfRef, Num (Fin 2))])])
        [KStr ''a'', KStr ''b'']
     = Inr (MapV [(KStr ''a'', MapV [(KStr ''b'', MapV [(selfRef, Num (Fin 1))]),
                                      (selfRef, Num (Fin 2))])])
   \<and> FieldsMap_get
        (MapV [(KStr ''a'', MapV [(KStr ''b'', MapV [(selfRef, Num (Fin 1))]),
                                   (selfRef, Num (Fin 2))])])
        [KStr ''a'', KStr ''b'']
     = Inr (Num (Fin 1))"
  by (simp add: FieldsMap_set_def FieldsMap_new_def FieldsMap_delete_def FieldsMap_get_def
      setIn_Cons setIn_single getIn_Cons Map_get_def mapKey_def is_symbol_def selfRef_def)

lemma selfRef_eq_mapKey [simp]: "selfRef = mapKey key \<longleftrightarrow> key = selfRef"
  using mapKey_eq_selfRef [of key] by metis

lemma Map_set_twice [simp]: "Map_set (Map_set kvs key a) key b = Map_set kvs key b"
  by (induction kvs key a rule: Map_set.induct) auto

lemma set_Map_set: "set (Map_set kvs key v) \<subseteq> insert (key, v) (set kvs)"
  by (induction kvs key v rule: Map_set.induct) auto

lemma Map_get_in: "Map_get kvs key \<noteq> Undefined \<Longrightarrow> (key, Map_get kvs key) \<in> set kvs"
  by (auto simp: Map_get_def split: option.splits dest: map_of_SomeD)

lemma setIn_MapV_last:
  "setIn (MapV kvs) [key] v dv mapGetter mapSetter = Inr (MapV (Map_set kvs (mapKey key) v))"
  by (simp add: setIn_single)

lemma setIn_MapV_Cons:
  "rest \<noteq> [] \<Longrightarrow>
   setIn (MapV kvs) (key # rest) v (MapV []) mapGetter mapSetter =
     (case setIn (if Map_get kvs (mapKey key) = Undefined then MapV []
                  else Map_get kvs (mapKey key)) rest v (MapV []) mapGetter mapSetter of
        Inl e \<Rightarrow> Inl e
      | Inr child \<Rightarrow> Inr (MapV (Map_set kvs (mapKey key) child)))"
  by (simp add: setIn_Cons split: sum.splits)

lemma setIn_not_MapV:
  "path \<noteq> [] \<Longrightarrow> \<not> isMap m \<Longrightarrow> setIn m path v dv mapGetter mapSetter = Inl TypeError"
  by (cases path; cases m; cases "tl path = []") (simp_all add: isMap_def setIn_single setIn_Cons)

lemma getIn_MapV_Cons:
  "getIn mapGetter (MapV kvs) (key # path) = getIn mapGetter (Map_get kvs (mapKey key)) path"
  by (simp add: getIn_Cons)

lemma getIn_empty_MapV: "path \<noteq> [] \<Longrightarrow> getIn mapGetter (MapV []) path = Inr Undefined"
  by (cases path) (simp_all add: getIn_MapV_Cons Map_get_def)

lemma wfFields_empty [simp]: "wfFields (MapV [])"
  by simp

lemma wfFields_new: "wfFields FieldsMap_new"
  by (simp add: FieldsMap_new_def)

lemma wfFields_Map_set:
  "wfFields (MapV kvs) \<Longrightarrow> key = selfRef \<or> (mapKey key = key \<and> wfFields v)
     \<Longrightarrow> wfFields (MapV (Map_set kvs key v))"
  using set_Map_set [of kvs key v] by auto

lemma wfFields_child:
  "wfFields (MapV kvs) \<Longrightarrow> key \<noteq> selfRef \<Longrightarrow> Map_get kvs key \<noteq> Undefined
     \<Longrightarrow> wfFields (Map_get kvs key)"
  using Map_get_in [of kvs key] by fastforce

lemma FieldsMap_set_wf:
  "wfFields t \<Longrightarrow> selfRef \<notin> set p \<Longrightarrow>
     \<exists>t'. setIn t (p @ [selfRef]) v (MapV []) mapGetter mapSetter = Inr t' \<and> wfFields t'"
proof (induction p arbitrary: t)
  case Nil
  then obtain kvs where t: "t = MapV kvs" by (cases t) simp_all
  with Nil show ?case
    by (simp add: setIn_MapV_last wfFields_Map_set del: wfFields.simps)
next
  case (Cons key rest)
  then obtain kvs where t: "t = MapV kvs" by (cases t) simp_all
  let ?start = "if Map_get kvs (mapKey key) = Undefined then MapV [] else Map_get kvs (mapKey key)"
  from Cons.prems have key: "mapKey key \<noteq> selfRef" and rest: "selfRef \<notin> set rest" by auto
  have "wfFields ?start"
    using Cons.prems(1) key t wfFields_child [of kvs "mapKey key"] by simp
  from Cons.IH [OF this rest] obtain child where
    child: "setIn ?start (rest @ [selfRef]) v (MapV []) mapGetter mapSetter = Inr child"
    and wf: "wfFields child" by blast
  have "wfFields (MapV (Map_set kvs (mapKey key) child))"
    using Cons.prems(1) t wf by (intro wfFields_Map_set) simp_all
  with child t show ?case
    by (simp add: setIn_MapV_Cons del: wfFields.simps)
qed

lemma FieldsMap_set_frame:
  "setIn t (p @ [selfRef]) v (MapV []) mapGetter mapSetter = Inr t' \<Longrightarrow>
   selfRef \<notin> set p \<Longrightarrow> selfRef \<notin> set q \<Longrightarrow> map mapKey q \<noteq> map mapKey p \<Longrightarrow>
     getIn mapGetter t' (q @ [selfRef]) = getIn mapGetter t (q @ [selfRef])"
proof (induction p arbitrary: t t' q)
  case Nil
  from Nil.prems(1) obtain kvs where t: "t = MapV kvs"
    by (cases t) (simp_all add: setIn_single)
  from Nil.prems obtain key q' where q: "q = key # q'" and key: "mapKey key \<noteq> selfRef"
    by (cases q) auto
  from Nil.prems(1) t have "t' = MapV (Map_set kvs selfRef v)"
    by (simp add: setIn_single)
  with t q key show ?case
    by (simp add: getIn_MapV_Cons Map_get_Map_set)
next
  case (Cons key rest)
  have isMap: "isMap t"
    using Cons.prems(1) setIn_not_MapV [of "(key # rest) @ [selfRef]" t v "MapV []"] by fastforce
  then obtain kvs where t: "t = MapV kvs" by (cases t) (simp_all add: isMap_def)
  let ?old = "Map_get kvs (mapKey key)"
  let ?start = "if ?old = Undefined then MapV [] else ?old"
  from Cons.prems(1) t obtain child where
    child: "setIn ?start (rest @ [selfRef]) v (MapV []) mapGetter mapSetter = Inr child"
    and t': "t' = MapV (Map_set kvs (mapKey key) child)"
    by (auto simp: setIn_MapV_Cons split: sum.splits)
  from Cons.prems have key: "mapKey key \<noteq> selfRef" and rest: "selfRef \<notin> set rest" by auto
  show ?case
  proof (cases q)
    case Nil
    with t t' key show ?thesis
      by (simp add: getIn_MapV_Cons Map_get_Map_set)
  next
    case (Cons k q')
    show ?thesis
    proof (cases "mapKey k = mapKey key")
      case False
      with t t' Cons show ?thesis
        by (simp add: getIn_MapV_Cons Map_get_Map_set)
    next
      case True
      with Cons.prems Cons have q': "selfRef \<notin> set q'" "map mapKey q' \<noteq> map mapKey rest"
        using \<open>selfRef \<notin> set q\<close> \<open>map mapKey q \<noteq> map mapKey (key # rest)\<close> by auto
      have same: "getIn mapGetter child (q' @ [selfRef]) = getIn mapGetter ?start (q' @ [selfRef])"
      proof (cases "?old = Undefined")
        case True
        then show ?thesis using Cons.IH [of "MapV []" child q'] child rest q' by simp
      next
        case False
        then show ?thesis using Cons.IH [of ?old child q'] child rest q' by simp
      qed
      have "getIn mapGetter ?start (q' @ [selfRef]) = getIn mapGetter ?old (q' @ [selfRef])"
        by (simp add: getIn_empty_MapV)
      with same t t' Cons True show ?thesis
        by (simp add: getIn_MapV_Cons Map_get_Map_set)
    qed
  qed
qed

lemma payloads_below_Undefined [simp]: "payloads_below md Undefined d = {}"
  by (auto simp: payloads_below_def truthy_def)

lemma within_depth_allows: "within_depth md (Suc (d + n)) \<Longrightarrow> depth_allows md d"
  by (cases md) (auto simp: within_depth_def depth_allows_def)

lemma allows_within_depth: "depth_allows md d \<Longrightarrow> within_depth md (Suc d)"
  by (cases md) (auto simp: within_depth_def depth_allows_def)

lemma truthy_not_Undefined: "truthy v \<Longrightarrow> v \<noteq> Undefined"
  by (auto simp: truthy_def)

lemma in_keys: "Map_get kvs key \<noteq> Undefined \<Longrightarrow> key \<in> set (Map_keys kvs)"
  using Map_get_in [of kvs key] by (force simp: Map_keys_def)

lemma wf_key: "wfFields (MapV kvs) \<Longrightarrow> key \<in> set (Map_keys kvs) \<Longrightarrow> key \<noteq> selfRef \<Longrightarrow> mapKey key = key"
  by (auto simp: Map_keys_def)

lemma payloads_below_MapV:
  assumes wf: "wfFields (MapV kvs)"
  shows "payloads_below md (MapV kvs) d = (\<Union>key \<in> set (Map_keys kvs). visit md kvs d key)"
proof (intro set_eqI iffI)
  fix v
  assume "v \<in> payloads_below md (MapV kvs) d"
  then obtain q where tv: "truthy v" and q: "selfRef \<notin> set q"
    and dep: "q = [] \<or> within_depth md (d + length q)"
    and g: "getIn mapGetter (MapV kvs) (q @ [selfRef]) = Inr v"
    by (auto simp: payloads_below_def)
  show "v \<in> (\<Union>key \<in> set (Map_keys kvs). visit md kvs d key)"
  proof (cases q)
    case Nil
    with g have v: "v = Map_get kvs selfRef" by (simp add: getIn_MapV_Cons)
    with tv have "selfRef \<in> set (Map_keys kvs)" using in_keys truthy_not_Undefined by blast
    with v tv show ?thesis by (auto simp: visit_def)
  next
    case (Cons k q')
    let ?key = "mapKey k"
    from Cons q have k: "?key \<noteq> selfRef" and q': "selfRef \<notin> set q'" by auto
    from g Cons have g': "getIn mapGetter (Map_get kvs ?key) (q' @ [selfRef]) = Inr v"
      by (simp add: getIn_MapV_Cons)
    with tv have "Map_get kvs ?key \<noteq> Undefined" by (auto simp: truthy_def)
    then have inkeys: "?key \<in> set (Map_keys kvs)" by (rule in_keys)
    from dep Cons have "within_depth md (Suc (d + length q'))" by simp
    then have "depth_allows md d" and "q' = [] \<or> within_depth md (Suc d + length q')"
      by (auto dest: within_depth_allows)
    with tv q' g' k have "v \<in> visit md kvs d ?key"
      by (auto simp: visit_def payloads_below_def)
    with inkeys show ?thesis by blast
  qed
next
  fix v
  assume "v \<in> (\<Union>key \<in> set (Map_keys kvs). visit md kvs d key)"
  then obtain key where inkeys: "key \<in> set (Map_keys kvs)" and v: "v \<in> visit md kvs d key" by blast
  show "v \<in> payloads_below md (MapV kvs) d"
  proof (cases "key = selfRef")
    case True
    with v have "truthy v" "getIn mapGetter (MapV kvs) ([] @ [selfRef]) = Inr v"
      by (auto simp: visit_def getIn_MapV_Cons)
    then show ?thesis unfolding payloads_below_def
      by (intro CollectI conjI exI [of _ "[]"]) simp_all
  next
    case False
    with v have da: "depth_allows md d" and "v \<in> payloads_below md (Map_get kvs key) (d + 1)"
      by (auto simp: visit_def split: if_splits)
    then obtain q' where tv: "truthy v" and q': "selfRef \<notin> set q'"
      and dep: "q' = [] \<or> within_depth md (Suc d + length q')"
      and g: "getIn mapGetter (Map_get kvs key) (q' @ [selfRef]) = Inr v"
      by (auto simp: payloads_below_def)
    have mk: "mapKey key = key" using wf inkeys False by (rule wf_key)
    have "selfRef \<notin> set (key # q')" using False q' by auto
    moreover have "within_depth md (d + length (key # q'))"
      using da dep by (auto dest: allows_within_depth)
    moreover have "getIn mapGetter (MapV kvs) ((key # q') @ [selfRef]) = Inr v"
      using g mk by (simp add: getIn_MapV_Cons)
    ultimately show ?thesis using tv unfolding payloads_below_def by blast
  qed
qed

lemma explore_collects:
  "wfFields m \<Longrightarrow>
     \<exists>vs. explore md m d res = Inr (res @ vs) \<and> set vs = payloads_below md m d"
  "wfFields (MapV kvs) \<Longrightarrow>
     \<exists>vs. explore_forEach md kvs d keys res = Inr (res @ vs)
          \<and> set vs = (\<Union>key \<in> set keys. visit md kvs d key)"
proof (induction md m d res and md kvs d keys res rule: explore_explore_forEach.induct)
  case (1 maxDepth m depth result)
  then obtain kvs where m: "m = MapV kvs" by (cases m) simp_all
  from 1 m obtain vs where "explore_forEach maxDepth kvs depth (Map_keys kvs) result = Inr (result @ vs)"
    and "set vs = (\<Union>key \<in> set (Map_keys kvs). visit maxDepth kvs depth key)"
    by blast
  with m "1.prems" show ?case
    by (simp add: explore.simps payloads_below_MapV del: wfFields.simps)
next
  case (2 maxDepth kvs depth result)
  then show ?case by simp
next
  case (3 maxDepth kvs depth key keys result)
  let ?entry = "Map_get kvs key"
  note wf = "3.prems"
  show ?case
  proof (cases "truthy ?entry")
    case False
    have no_payload: "visit maxDepth kvs depth key = {}"
    proof (cases "key = selfRef")
      case True
      with False show ?thesis by (auto simp: visit_def)
    next
      case nk: False
      have "?entry = Undefined"
      proof (rule ccontr)
        assume "?entry \<noteq> Undefined"
        with wf nk have "wfFields ?entry" by (rule wfFields_child)
        then have "truthy ?entry" by (cases ?entry) (simp_all add: truthy_def)
        with False show False by simp
      qed
      with nk show ?thesis by (simp add: visit_def)
    qed
    from "3.IH"(1) [OF False wf] obtain vs where
      "explore_forEach maxDepth kvs depth keys result = Inr (result @ vs)"
      and "set vs = (\<Union>key \<in> set keys. visit maxDepth kvs depth key)" by blast
    moreover have "(\<Union>k \<in> set (key # keys). visit maxDepth kvs depth k)
                     = (\<Union>k \<in> set keys. visit maxDepth kvs depth k)"
      by (simp add: no_payload)
    ultimately show ?thesis using False by simp
  next
    case True
    show ?thesis
    proof (cases "key = selfRef")
      case ks: True
      from "3.IH"(2) [OF _ ks wf] True obtain vs where
        "explore_forEach maxDepth kvs depth keys (result @ [?entry]) = Inr ((result @ [?entry]) @ vs)"
        and "set vs = (\<Union>key \<in> set keys. visit maxDepth kvs depth key)" by auto
      moreover have "visit maxDepth kvs depth key = {?entry}"
        using ks True by (auto simp: visit_def)
      ultimately show ?thesis using True ks
        by (intro exI [of _ "?entry # vs"]) simp
    next
      case nk: False
      show ?thesis
      proof (cases "depth_allows maxDepth depth")
        case da: True
        have "wfFields ?entry"
          using wf nk True by (intro wfFields_child) (auto simp: truthy_def)
        from "3.IH"(3) [OF _ nk da this] True obtain vs1 where
          e: "explore maxDepth ?entry (depth + 1) result = Inr (result @ vs1)"
          and s1: "set vs1 = payloads_below maxDepth ?entry (depth + 1)" by auto
        from "3.IH"(4) [OF _ nk da e wf] True obtain vs2 where
          f: "explore_forEach maxDepth kvs depth keys (result @ vs1) = Inr ((result @ vs1) @ vs2)"
          and s2: "set vs2 = (\<Union>key \<in> set keys. visit maxDepth kvs depth key)" by auto
        have "visit maxDepth kvs depth key = payloads_below maxDepth ?entry (depth + 1)"
          using nk da by (simp add: visit_def)
        with e f s1 s2 True nk da show ?thesis
          by (intro exI [of _ "vs1 @ vs2"]) simp
      next
        case nda: False
        have no_payload: "visit maxDepth kvs depth key = {}" using nk nda by (simp add: visit_def)
        from "3.IH"(5) [OF _ nk nda wf] True obtain vs where
          "explore_forEach maxDepth kvs depth keys result = Inr (result @ vs)"
          and "set vs = (\<Union>key \<in> set keys. visit maxDepth kvs depth key)" by auto
        moreover have "(\<Union>k \<in> set (key # keys). visit maxDepth kvs depth k)
                         = (\<Union>k \<in> set keys. visit maxDepth kvs depth k)"
          by (simp add: no_payload)
        ultimately show ?thesis using True nk nda by simp
      qed
    qed
  qed
qed

lemma getIn_wf:
  "wfFields t \<Longrightarrow> selfRef \<notin> set p \<Longrightarrow>
     \<exists>m. getIn mapGetter t p = Inr m \<and> (m = Undefined \<or> wfFields m)"
proof (induction p arbitrary: t)
  case Nil
  then show ?case by simp
next
  case (Cons key rest)
  then obtain kvs where t: "t = MapV kvs" by (cases t) simp_all
  show ?case
  proof (cases "Map_get kvs (mapKey key) = Undefined")
    case True
    with t show ?thesis by (simp add: getIn_MapV_Cons)
  next
    case False
    with Cons.prems t have "wfFields (Map_get kvs (mapKey key))"
      by (intro wfFields_child) auto
    with Cons.IH [of "Map_get kvs (mapKey key)"] Cons.prems t show ?thesis
      by (simp add: getIn_MapV_Cons del: wfFields.simps)
  qed
qed

lemma FieldsMap_get_wf:
  assumes "wfFields t" "selfRef \<notin> set p"
  shows "\<exists>v. FieldsMap_get t p = Inr v"
proof -
  from getIn_wf [OF assms] obtain m where
    m: "getIn mapGetter t p = Inr m" and shape: "m = Undefined \<or> wfFields m" by blast
  from shape show ?thesis
  proof
    assume "m = Undefined"
    with m show ?thesis by (simp add: FieldsMap_get_def getIn_append)
  next
    assume "wfFields m"
    then obtain kvs where "m = MapV kvs" by (cases m) simp_all
    with m show ?thesis by (simp add: FieldsMap_get_def getIn_append getIn_MapV_Cons)
  qed
qed

lemma FieldsMap_delete_wf:
  assumes wf: "wfFields t" and p: "selfRef \<notin> set p"
  shows "\<exists>t'. FieldsMap_delete t p = Inr t' \<and> wfFields t'"
proof -
  have bp: "selfRef \<notin> set (butlast p)" using p by (auto dest: in_set_butlastD)
  from FieldsMap_get_wf [OF wf bp] obtain r where r: "FieldsMap_get t (butlast p) = Inr r" by blast
  show ?thesis
  proof (cases "isMap r")
    case True
    then obtain kvs where "r = MapV kvs" by (cases r) (simp_all add: isMap_def)
    with r FieldsMap_set_wf [OF wf bp, of "MapV (Map_delete kvs (path_last p))"] show ?thesis
      by (simp add: FieldsMap_delete_def FieldsMap_set_def del: wfFields.simps)
  next
    case False
    with r wf show ?thesis
      by (cases r) (simp_all add: FieldsMap_delete_def isMap_def del: wfFields.simps)
  qed
qed

text \<open>
  Claim C8. On a trie of the class's shape and for a path of the caller, \<open>set(p, v)\<close>
  completes, creating the nodes that are missing, and keeps the shape; afterwards
  \<open>get(p)\<close> is \<open>v\<close>, whatever was stored before; \<open>get(q)\<close> is what it was for every path
  \<open>q\<close> of another address (another sequence of segments in string form), ancestors and
  descendants of \<open>p\<close> among them; and no result of \<open>keys\<close> holds the sentinel.
\<close>

theorem trie_exactness:
  assumes wf: "wfFields t" and p: "selfRef \<notin> set p"
  shows "\<exists>t'. FieldsMap_set t p v = Inr t' \<and> wfFields t' \<and> FieldsMap_get t' p = Inr v
           \<and> (\<forall>q. selfRef \<notin> set q \<and> map mapKey q \<noteq> map mapKey p
                 \<longrightarrow> FieldsMap_get t' q = FieldsMap_get t q)
           \<and> (\<forall>q ks. FieldsMap_keys t' q = Inr ks \<longrightarrow> selfRef \<notin> set ks)"
proof -
  from FieldsMap_set_wf [OF wf p] obtain t' where
    s: "setIn t (p @ [selfRef]) v (MapV []) mapGetter mapSetter = Inr t'" and wf': "wfFields t'"
    by blast
  have stored: "getIn mapGetter t' (p @ [selfRef]) = Inr v"
    using getIn_setIn [of mapSetter mapGetter "p @ [selfRef]" t v "MapV []" t'] mapSetter_law s
    by blast
  have frame: "getIn mapGetter t' (q @ [selfRef]) = getIn mapGetter t (q @ [selfRef])"
    if "selfRef \<notin> set q" "map mapKey q \<noteq> map mapKey p" for q
    using FieldsMap_set_frame [OF s p that] .
  have nokey: "selfRef \<notin> set ks" if "FieldsMap_keys t' q = Inr ks" for q ks
    using that
    by (auto simp: FieldsMap_keys_def split: sum.splits if_splits jsval.splits)
  from s wf' stored frame nokey show ?thesis
    unfolding FieldsMap_set_def FieldsMap_get_def by blast
qed

text \<open>
  After \<open>set(["a","b"], 1)\<close> and \<open>set(["a"], 2)\<close>: \<open>get(["a","b"])\<close> is \<open>1\<close>, \<open>get(["a"])\<close>
  is \<open>2\<close> and \<open>keys(["a"])\<close> is \<open>["b"]\<close>.
\<close>

theorem trie_exactness_witness:
  "wfFields (MapV [(KStr ''a'', MapV [(KStr ''b'', MapV [(selfRef, Num (Fin 1))])])])
   \<and> selfRef \<notin> set [KStr ''a'']
   \<and> FieldsMap_set FieldsMap_new [KStr ''a'', KStr ''b''] (Num (Fin 1))
       = Inr (MapV [(KStr ''a'', MapV [(KStr ''b'', MapV [(selfRef, Num (Fin 1))])])])
   \<and> FieldsMap_set (MapV [(KStr ''a'', MapV [(KStr ''b'', MapV [(selfRef, Num (Fin 1))])])])
        [KStr ''a''] (Num (Fin 2))
       = Inr (MapV [(KStr ''a'', MapV [(KStr ''b'', MapV [(selfRef, Num (Fin 1))]),
                                        (selfRef, Num (Fin 2))])])
   \<and> FieldsMap_get (MapV [(KStr ''a'', MapV [(KStr ''b'', MapV [(selfRef, Num (Fin 1))]),
                                        (selfRef, Num (Fin 2))])]) [KStr ''a'', KStr ''b'']
       = Inr (Num (Fin 1))
   \<and> FieldsMap_get (MapV [(KStr ''a'', MapV [(KStr ''b'', MapV [(selfRef, Num (Fin 1))]),
                                        (selfRef, Num (Fin 2))])]) [KStr ''a'']
       = Inr (Num (Fin 2))
   \<and> FieldsMap_keys (MapV [(KStr ''a'', MapV [(KStr ''b'', MapV [(selfRef, Num (Fin 1))]),
                                        (selfRef, Num (Fin 2))])]) [KStr ''a'']
       = Inr [KStr ''b'']"
proof -
  let ?t1 = "MapV [(KStr ''a'', MapV [(KStr ''b'', MapV [(selfRef, Num (Fin 1))])])]"
  let ?t2 = "MapV [(KStr ''a'', MapV [(KStr ''b'', MapV [(selfRef, Num (Fin 1))]),
                                      (selfRef, Num (Fin 2))])]"
  have mk [simp]: "mapKey (KStr s) = KStr s" for s by (simp add: mapKey_def is_symbol_def)
  have ne [simp]: "KStr s \<noteq> selfRef" "selfRef \<noteq> KStr s" for s by (simp_all add: selfRef_def)
  have wf: "wfFields ?t1" by simp
  have p: "selfRef \<notin> set [KStr ''a'']" by simp
  have s1: "FieldsMap_set FieldsMap_new [KStr ''a'', KStr ''b''] (Num (Fin 1)) = Inr ?t1"
    by (simp add: FieldsMap_set_def FieldsMap_new_def setIn_MapV_Cons setIn_MapV_last Map_get_def)
  have s2: "FieldsMap_set ?t1 [KStr ''a''] (Num (Fin 2)) = Inr ?t2"
    by (simp add: FieldsMap_set_def setIn_MapV_Cons setIn_MapV_last Map_get_def)
  have old: "FieldsMap_get ?t1 [KStr ''a'', KStr ''b''] = Inr (Num (Fin 1))"
    by (simp add: FieldsMap_get_def getIn_MapV_Cons Map_get_def)
  have k: "FieldsMap_keys ?t2 [KStr ''a''] = Inr [KStr ''b'']"
    by (simp add: FieldsMap_keys_def getIn_MapV_Cons Map_get_def Map_keys_def truthy_def)
  from trie_exactness [OF wf p, of "Num (Fin 2)"] s2
  have new: "FieldsMap_get ?t2 [KStr ''a''] = Inr (Num (Fin 2))"
    and frame: "\<forall>q. selfRef \<notin> set q \<and> map mapKey q \<noteq> map mapKey [KStr ''a'']
                  \<longrightarrow> FieldsMap_get ?t2 q = FieldsMap_get ?t1 q"
    by auto
  from frame have "FieldsMap_get ?t2 [KStr ''a'', KStr ''b''] = FieldsMap_get ?t1 [KStr ''a'', KStr ''b'']"
    by simp
  with old wf p s1 s2 new k show ?thesis by simp
qed

text \<open>
  What \<open>getAllNested\<close> collects. On a trie of the class's shape and for a path \<open>p\<close> of
  the caller the call completes, and the values it returns are the truthy payloads
  stored at \<open>p\<close> or at a descendant of \<open>p\<close> that lies no more than \<open>maxDepth\<close> levels
  below \<open>p\<close> (any number of levels when no bound is given; the payload at \<open>p\<close> itself
  under every bound). It returns the empty list when there is no node at \<open>p\<close>.
\<close>

lemma getAllNested_truthy_payloads:
  assumes wf: "wfFields t" and p: "selfRef \<notin> set p"
  shows "\<exists>vs. FieldsMap_getAllNested t p maxDepth = Inr vs
          \<and> set vs = {v. truthy v \<and>
                          (\<exists>q. selfRef \<notin> set q \<and> within_depth maxDepth (length q)
                               \<and> FieldsMap_get t (p @ q) = Inr v)}
          \<and> (getIn mapGetter t p = Inr Undefined \<longrightarrow> vs = [])"
proof -
  from getIn_wf [OF wf p] obtain m where
    m: "getIn mapGetter t p = Inr m" and shape: "m = Undefined \<or> wfFields m" by blast
  have below: "FieldsMap_get t (p @ q) = getIn mapGetter m (q @ [selfRef])" for q
    using m by (simp add: FieldsMap_get_def getIn_append)
  have spec: "{v. truthy v \<and> (\<exists>q. selfRef \<notin> set q \<and> within_depth maxDepth (length q)
                                   \<and> FieldsMap_get t (p @ q) = Inr v)}
              = payloads_below maxDepth m 0"
    by (auto simp: payloads_below_def below within_depth_def)
  from shape show ?thesis
  proof
    assume u: "m = Undefined"
    with m have "FieldsMap_getAllNested t p maxDepth = Inr []"
      by (simp add: FieldsMap_getAllNested_def truthy_def)
    with spec u show ?thesis by simp
  next
    assume wfm: "wfFields m"
    then have tm: "truthy m" "m \<noteq> Undefined" by (cases m; simp add: truthy_def)+
    from explore_collects(1) [OF wfm, of maxDepth 0 "[]"] obtain vs where
      "explore maxDepth m 0 [] = Inr vs" and "set vs = payloads_below maxDepth m 0" by auto
    with m tm spec show ?thesis
      by (simp add: FieldsMap_getAllNested_def)
  qed
qed

text \<open>
  Claim C3 at a concrete trie. After \<open>set(["a"], 0)\<close> the payload \<open>0\<close> is stored at
  \<open>["a"]\<close>: \<open>get(["a"])\<close> returns it and \<open>has(["a"])\<close> is true. \<open>getAllNested(["a"])\<close>
  returns the empty list: the guard \<open>if(!value) return\<close>, which is there for a key
  without a value, also drops the stored payload that is falsy.
\<close>

theorem subtree_aggregation_falsy_payload:
  "FieldsMap_set FieldsMap_new [KStr ''a''] (Num (Fin 0))
     = Inr (MapV [(KStr ''a'', MapV [(selfRef, Num (Fin 0))])])
   \<and> FieldsMap_get (MapV [(KStr ''a'', MapV [(selfRef, Num (Fin 0))])]) [KStr ''a''] = Inr (Num (Fin 0))
   \<and> FieldsMap_has (MapV [(KStr ''a'', MapV [(selfRef, Num (Fin 0))])]) [KStr ''a''] = Inr True
   \<and> FieldsMap_getAllNested (MapV [(KStr ''a'', MapV [(selfRef, Num (Fin 0))])]) [KStr ''a''] None
       = Inr []"
  by (simp add: FieldsMap_set_def FieldsMap_new_def FieldsMap_get_def FieldsMap_has_def
      FieldsMap_getAllNested_def setIn_MapV_Cons setIn_MapV_last getIn_MapV_Cons Map_get_def
      Map_keys_def explore.simps truthy_def mapKey_def is_symbol_def selfRef_def)

text \<open>
  With the truthy payloads \<open>10\<close>, \<open>20\<close>, \<open>30\<close> at \<open>["a"]\<close>, \<open>["a","b"]\<close>,
  \<open>["a","b","c"]\<close>: \<open>getAllNested(["a"])\<close> returns all three and
  \<open>getAllNested(["a"], 1)\<close> the first two.
\<close>

lemma getAllNested_example:
  "wfFields (MapV [(KStr ''a'', MapV [(selfRef, Num (Fin 10)),
              (KStr ''b'', MapV [(selfRef, Num (Fin 20)),
                 (KStr ''c'', MapV [(selfRef, Num (Fin 30))])])])])
   \<and> selfRef \<notin> set [KStr ''a'']
   \<and> FieldsMap_getAllNested (MapV [(KStr ''a'', MapV [(selfRef, Num (Fin 10)),
              (KStr ''b'', MapV [(selfRef, Num (Fin 20)),
                 (KStr ''c'', MapV [(selfRef, Num (Fin 30))])])])]) [KStr ''a''] None
       = Inr [Num (Fin 10), Num (Fin 20), Num (Fin 30)]
   \<and> FieldsMap_getAllNested (MapV [(KStr ''a'', MapV [(selfRef, Num (Fin 10)),
              (KStr ''b'', MapV [(selfRef, Num (Fin 20)),
                 (KStr ''c'', MapV [(selfRef, Num (Fin 30))])])])]) [KStr ''a''] (Some 1)
       = Inr [Num (Fin 10), Num (Fin 20)]
   \<and> {v. truthy v \<and>
          (\<exists>q. selfRef \<notin> set q \<and> within_depth (Some 1) (length q)
               \<and> FieldsMap_get (MapV [(KStr ''a'', MapV [(selfRef, Num (Fin 10)),
                      (KStr ''b'', MapV [(selfRef, Num (Fin 20)),
                         (KStr ''c'', MapV [(selfRef, Num (Fin 30))])])])]) ([KStr ''a''] @ q) = Inr v)}
       = {Num (Fin 10), Num (Fin 20)}"
proof -
  let ?t = "MapV [(KStr ''a'', MapV [(selfRef, Num (Fin 10)),
              (KStr ''b'', MapV [(selfRef, Num (Fin 20)),
                 (KStr ''c'', MapV [(selfRef, Num (Fin 30))])])])]"
  have mk [simp]: "mapKey (KStr s) = KStr s" for s by (simp add: mapKey_def is_symbol_def)
  have ne [simp]: "KStr s \<noteq> selfRef" "selfRef \<noteq> KStr s" for s by (simp_all add: selfRef_def)
  have wf: "wfFields ?t" by simp
  have p: "selfRef \<notin> set [KStr ''a'']" by simp
  have every: "FieldsMap_getAllNested ?t [KStr ''a''] None
                = Inr [Num (Fin 10), Num (Fin 20), Num (Fin 30)]"
    by (simp add: FieldsMap_getAllNested_def getIn_MapV_Cons Map_get_def Map_keys_def
        explore.simps truthy_def depth_allows_def)
  have one: "FieldsMap_getAllNested ?t [KStr ''a''] (Some 1) = Inr [Num (Fin 10), Num (Fin 20)]"
    by (simp add: FieldsMap_getAllNested_def getIn_MapV_Cons Map_get_def Map_keys_def
        explore.simps truthy_def depth_allows_def)
  from getAllNested_truthy_payloads [OF wf p, of "Some 1"] one
  have "set [Num (Fin 10), Num (Fin 20)]
          = {v. truthy v \<and> (\<exists>q. selfRef \<notin> set q \<and> within_depth (Some 1) (length q)
                               \<and> FieldsMap_get ?t ([KStr ''a''] @ q) = Inr v)}"
    by auto
  then have "{v. truthy v \<and> (\<exists>q. selfRef \<notin> set q \<and> within_depth (Some 1) (length q)
                               \<and> FieldsMap_get ?t ([KStr ''a''] @ q) = Inr v)}
              = {Num (Fin 10), Num (Fin 20)}"
    by simp
  with wf p every one show ?thesis by blast
qed

subsection \<open>The sanity check of field\<close>

lemma misuse_NaN: "misuse_condition h (Num NaN) (Num NaN) = Inr False"
  by (simp add: misuse_condition_def strictEq_def)

lemma join_path_error: "join_path p = Inl e \<Longrightarrow> e = TypeError"
  by (induction p arbitrary: e) (auto split: if_splits sum.splits)

lemma field_Plain_not_misuse:
  assumes "misuse_condition h fieldValue v = Inr False"
    and "accessedPaths \<noteq> []"
    and "getIn (objGetter h) formState (last accessedPaths) = Inr fieldValue"
  shows "field h ident formState accessedPaths fc gc (Plain v) \<noteq> Inl MisuseError"
  using assms
  by (auto simp: field_def MisuseError_def Let_def split: sum.splits dest: join_path_error)

text \<open>
  Claim C9. The condition of the sanity check is false on \<open>NaN\<close> against \<open>NaN\<close>, whatever
  the host answers; so when the last accessed path leads to \<open>NaN\<close> in the snapshot and
  the caller supplies \<open>NaN\<close>, \<open>field\<close> does not raise the misuse error.
\<close>

theorem nan_allowance:
  "misuse_condition h (Num NaN) (Num NaN) = Inr False \<and>
   (accessedPaths \<noteq> [] \<and> getIn (objGetter h) formState (last accessedPaths) = Inr (Num NaN) \<longrightarrow>
      field h ident formState accessedPaths fc gc (Plain (Num NaN)) \<noteq> Inl MisuseError)"
  using field_Plain_not_misuse [OF misuse_NaN] misuse_NaN by blast

text \<open>
  With \<open>NaN\<close> stored at \<open>ratio\<close> and supplied by the caller, \<open>field\<close> returns its helpers.
\<close>

theorem nan_allowance_witness:
  "[[KStr ''ratio'']] \<noteq> [] \<and>
   getIn (objGetter example_host) (Obj [(KStr ''ratio'', Num NaN)]) (last [[KStr ''ratio'']]) = Inr (Num NaN) \<and>
   field example_host 7 (Obj [(KStr ''ratio'', Num NaN)]) [[KStr ''ratio'']] None None (Plain (Num NaN))
     = Inr (\<lparr> name = ''ratio'', val = Num NaN \<rparr>, [[KStr ''ratio'']])"
proof -
  have g: "getIn (objGetter example_host) (Obj [(KStr ''ratio'', Num NaN)]) (last [[KStr ''ratio'']]) = Inr (Num NaN)"
    by (simp add: getIn_Cons objGetter_Obj)
  have "field example_host 7 (Obj [(KStr ''ratio'', Num NaN)]) [[KStr ''ratio'']] None None (Plain (Num NaN))
          \<noteq> Inl MisuseError"
    using nan_allowance [of example_host "[[KStr ''ratio'']]" "Obj [(KStr ''ratio'', Num NaN)]" 7 None None] g
    by simp
  then show ?thesis
    using g
    by (simp add: field_def misuse_condition_def strictEq_def mkDefault_def is_symbol_def
        MisuseError_def split: sum.splits)
qed

lemma isNaN_abc: "StringToNumber_isNaN ''abc''"
  by (simp add: StringToNumber_isNaN_def trim_def is_space_def drop_sign_def
      is_unsigned_decimal_def is_radix_literal_def is_digit_def is_exponent_part_def)

lemma isNaN_xyz: "StringToNumber_isNaN ''xyz''"
  by (simp add: StringToNumber_isNaN_def trim_def is_space_def drop_sign_def
      is_unsigned_decimal_def is_radix_literal_def is_digit_def is_exponent_part_def)

text \<open>
  Claim C10. Whenever \<open>isNaN\<close> answers true on both the stored and the supplied value,
  the condition of the sanity check is false and \<open>field\<close> does not raise the misuse
  error, equal or not.
\<close>

theorem coercing_isNaN_accepts:
  assumes a: "js_isNaN (objIsNaN h) a = Inr True"
    and b: "js_isNaN (objIsNaN h) b = Inr True"
  shows "misuse_condition h a b = Inr False \<and>
         (accessedPaths \<noteq> [] \<and> getIn (objGetter h) formState (last accessedPaths) = Inr a \<longrightarrow>
            field h ident formState accessedPaths fc gc (Plain b) \<noteq> Inl MisuseError)"
proof -
  have m: "misuse_condition h a b = Inr False"
    using a b by (simp add: misuse_condition_def)
  show ?thesis using m field_Plain_not_misuse [OF m] by blast
qed

text \<open>
  The strings \<open>"abc"\<close> and \<open>"xyz"\<close> are not strictly equal and both convert to \<open>NaN\<close>:
  with \<open>"abc"\<close> stored at \<open>title\<close> and \<open>"xyz"\<close> supplied, \<open>field\<close> returns its helpers.
\<close>

theorem coercing_isNaN_accepts_witness:
  "js_isNaN (objIsNaN example_host) (Str ''abc'') = Inr True \<and> js_isNaN (objIsNaN example_host) (Str ''xyz'') = Inr True
   \<and> \<not> strictEq (sameRef example_host) (Str ''abc'') (Str ''xyz'')
   \<and> misuse_condition example_host (Str ''abc'') (Str ''xyz'') = Inr False
   \<and> field example_host 7 (Obj [(KStr ''title'', Str ''abc'')]) [[KStr ''title'']] None None (Plain (Str ''xyz''))
       = Inr (\<lparr> name = ''title'', val = Str ''abc'' \<rparr>, [[KStr ''title'']])"
proof -
  have m: "misuse_condition example_host (Str ''abc'') (Str ''xyz'') = Inr False"
    using coercing_isNaN_accepts [of example_host "Str ''abc''" "Str ''xyz''"] by (simp add: isNaN_abc isNaN_xyz)
  have g: "getIn (objGetter example_host) (Obj [(KStr ''title'', Str ''abc'')]) [KStr ''title''] = Inr (Str ''abc'')"
    by (simp add: getIn_Cons objGetter_Obj)
  show ?thesis
    using m g
    by (simp add: isNaN_abc isNaN_xyz strictEq_def field_def mkDefault_def is_symbol_def)
qed

end
